(* ===== verification/Prelude.thy ===== *)
theory Prelude
  imports Main "HOL-Library.Word" "HOL-Library.Multiset" "HOL-Library.AList"
begin

text \<open>
  Shared vocabulary of the votechain development: the types that stand for the
  Rust types the components exchange (byte strings, verifying keys, u32 indices),
  the fact collections the component theories feed, and generic lemmas on lists,
  association lists and maps that several components use.
\<close>

section \<open>Types shared by the components\<close>

text \<open>A byte string (\<open>Vec<u8>\<close>, \<open>[u8; N]\<close>): a list of 8-bit words.\<close>
type_synonym bytes = "8 word list"

text \<open>
  An Ed25519 verifying key (\<open>ed25519_dalek::VerifyingKey\<close>). Keys are compared by
  their encoding only, so the model identifies a key by a number.
\<close>
type_synonym vkey = nat

text \<open>
  A \<open>HashMap<K, V>\<close> is read through its entries in iteration order, an association
  list with distinct keys; the order is unspecified by Rust and every lemma that
  matters is proved for all orders.
\<close>
type_synonym ('k, 'v) hashmap = "('k \<times> 'v) list"

section \<open>Fact collections\<close>

named_theorems chain_simps "evaluation rules of the chain store operations"
named_theorems deleg_simps "evaluation rules of the delegation resolver"

section \<open>Generic lemmas\<close>

text \<open>Appending an element by \<open>fold\<close> over a filter: the shape of Rust's
  \<open>for x in xs { if p(x) { v.push(x) } }\<close> when the vector is read as a stack.\<close>

lemma fold_cons_filter:
  "fold (\<lambda>c st. if P c then c # st else st) cs st = rev (filter P cs) @ st"
  by (induction cs arbitrary: st) auto

text \<open>A set whose successors stay within it and a second set reaches, under the
  reflexive transitive closure, only itself and what the second set reaches: the
  closure argument of every visited-set traversal.\<close>

lemma Image_rtrancl_closed:
  assumes "E `` A \<subseteq> A \<union> B"
  shows "E\<^sup>* `` A \<subseteq> A \<union> E\<^sup>* `` B"
proof
  fix y assume "y \<in> E\<^sup>* `` A"
  then obtain a where a: "a \<in> A" and ay: "(a, y) \<in> E\<^sup>*" by blast
  from ay show "y \<in> A \<union> E\<^sup>* `` B"
  proof (induction rule: rtrancl_induct)
    case base
    with a show ?case by simp
  next
    case (step y z)
    then show ?case
      using assms by (blast intro: rtrancl_into_rtrancl)
  qed
qed

text \<open>Inserting \<open>f v\<close> for every element of a list into a map, in any order.\<close>

lemma fold_map_upd_const:
  "fold (\<lambda>v w. w(v \<mapsto> f v)) vs m0 = (\<lambda>x. if x \<in> set vs then Some (f x) else m0 x)"
  by (induction vs arbitrary: m0) (auto simp: fun_eq_iff)

lemma those_map_Some [simp]: "those (map Some xs) = Some xs"
  by (induction xs) auto

lemma last_take_nth:
  "0 < n \<Longrightarrow> n \<le> length xs \<Longrightarrow> last (take n xs) = xs ! (n - 1)"
  by (subst last_conv_nth) auto

lemma fold_fold_concat: "fold (\<lambda>x. fold f (g x)) xs acc = fold f (concat (map g xs)) acc"
  by (induction xs arbitrary: acc) auto

lemma sum_list_map_snd:
  "distinct (map fst al) \<Longrightarrow> (\<Sum>x\<leftarrow>al. f (snd x)) = (\<Sum>k\<in>set (map fst al). f (the (map_of al k)))"
proof (induction al)
  case Nil
  then show ?case by simp
next
  case (Cons p al)
  obtain k v where p: "p = (k, v)" by (cases p)
  have "k \<notin> set (map fst al)" using Cons.prems p by simp
  moreover have "(\<Sum>k'\<in>set (map fst al). f (the (map_of ((k, v) # al) k'))) = (\<Sum>k'\<in>set (map fst al). f (the (map_of al k')))"
    using calculation by (intro sum.cong) auto
  ultimately show ?case using Cons p by simp
qed

lemma set_alist_update: "set (AList.update k v al) \<subseteq> insert (k, v) (set al)"
  by (induction al) auto

lemma map_of_Some_le_Max:
  "map_of al (k::nat) = Some v \<Longrightarrow> k \<le> Max (insert 0 (fst ` set al))"
  by (metis Max_ge finite_insert finite_imageI List.finite_set insertI2 map_of_SomeD image_eqI fst_conv)

end
