(* ===== verification/Ballot.thy ===== *)
theory Ballot
  imports Prelude
begin

text \<open>
  The ballot codec and the signed envelope of \<open>src/lib/src/lib.rs\<close> (crate
  \<open>vote_lib\<close>). The Paillier scheme and Ed25519 are libraries the code only calls:
  they enter as interfaces. A Paillier ciphertext is modelled symbolically by the
  residue it encrypts, so that homomorphic addition and scalar multiplication are
  addition and multiplication modulo the key's modulus \<open>n\<close>, and decryption under
  the matching key returns the residue; the randomness is carried into the range
  proof, which is a symbolic record of what was proved. A signature scheme is a
  record of a signing and a verifying function; serialisation (\<open>bincode\<close>) is a
  function parameter. The theory proves that a fresh ballot is well formed, that
  weighting and summing are homomorphic on the plaintexts, and that a freshly
  signed value verifies under a correct scheme.
\<close>

section \<open>The Paillier interface\<close>

text \<open>\<open>RawCiphertext\<close>, symbolically: the plaintext residue it encrypts.\<close>

datatype ciphertext = Ciphertext int

text \<open>\<open>EncryptionKey\<close> and \<open>DecryptionKey\<close>: the modulus \<open>n\<close> is what the model needs.\<close>

record encryption_key =
  ek_n :: int

record decryption_key =
  dk_n :: int

definition paillier_encrypt :: "encryption_key \<Rightarrow> int \<Rightarrow> int \<Rightarrow> ciphertext" where
  "paillier_encrypt ek m r = Ciphertext (m mod ek_n ek)"

fun paillier_add :: "encryption_key \<Rightarrow> ciphertext \<Rightarrow> ciphertext \<Rightarrow> ciphertext" where
  "paillier_add ek (Ciphertext a) (Ciphertext b) = Ciphertext ((a + b) mod ek_n ek)"

fun paillier_mul :: "encryption_key \<Rightarrow> ciphertext \<Rightarrow> int \<Rightarrow> ciphertext" where
  "paillier_mul ek (Ciphertext a) w = Ciphertext ((a * w) mod ek_n ek)"

fun paillier_decrypt :: "decryption_key \<Rightarrow> ciphertext \<Rightarrow> int" where
  "paillier_decrypt dk (Ciphertext a) = a mod dk_n dk"

text \<open>\<open>RangeProofNi::prove(ek, range, c, s, r)\<close>, recorded symbolically.\<close>

datatype range_proof = RangeProofNi int ciphertext int int

section \<open>Ballots\<close>

text \<open>\<open>struct Ballot\<close>; \<open>OffsetDateTime\<close> is read as an integer instant.\<close>

record ballot =
  timestamp :: int
  issue_id :: string
  vote_for :: ciphertext
  vote_against :: ciphertext
  proof_for :: range_proof
  proof_against :: range_proof

text \<open>\<open>Ballot::encode_verdict\<close>: encrypt the verdict with fresh randomness \<open>r\<close> (an
  input here: \<open>OsRng.next_u64()\<close>) and prove it lies below the range \<open>3\<close>.\<close>

definition encode_verdict :: "encryption_key \<Rightarrow> nat \<Rightarrow> int \<Rightarrow> ciphertext \<times> range_proof" where
  "encode_verdict ek verdict r =
     (let s = int verdict;
          c = paillier_encrypt ek s r
      in (c, RangeProofNi 3 c s r))"

text \<open>\<open>Ballot::new\<close>; the clock reading and the two random values are inputs.\<close>

definition ballot_new :: "encryption_key \<Rightarrow> bool \<Rightarrow> string \<Rightarrow> int \<Rightarrow> int \<Rightarrow> int \<Rightarrow> ballot" where
  "ballot_new ek verdict iid now r1 r2 =
     (let (vf, pf) = encode_verdict ek (if verdict then 1 else 0) r1;
          (va, pa) = encode_verdict ek (if verdict then 0 else 1) r2
      in \<lparr>timestamp = now, issue_id = iid, vote_for = vf, vote_against = va,
          proof_for = pf, proof_against = pa\<rparr>)"

text \<open>\<open>Ballot::validate_proofs\<close>: the verification calls are commented out in the
  source, so every ballot passes.\<close>

definition validate_proofs :: "ballot \<Rightarrow> bool" where
  "validate_proofs b = True"

text \<open>\<open>Ballot::weight\<close>: both ciphertexts are multiplied by the plaintext weight.\<close>

definition ballot_weight :: "encryption_key \<Rightarrow> nat \<Rightarrow> ballot \<Rightarrow> ballot" where
  "ballot_weight ek w b =
     b\<lparr>vote_for := paillier_mul ek (vote_for b) (int w),
       vote_against := paillier_mul ek (vote_against b) (int w)\<rparr>"

text \<open>\<open>Ballot::sum\<close>: add the ballot into the two running totals.\<close>

definition ballot_sum :: "encryption_key \<Rightarrow> ballot \<Rightarrow> ciphertext \<Rightarrow> ciphertext \<Rightarrow> ciphertext \<times> ciphertext" where
  "ballot_sum ek b agg_for agg_against =
     (paillier_add ek agg_for (vote_for b), paillier_add ek agg_against (vote_against b))"

section \<open>Signed envelopes\<close>

text \<open>An Ed25519 signing key, identified by its verifying half.\<close>

datatype signing_key = SigningKey vkey

fun verifying_key :: "signing_key \<Rightarrow> vkey" where
  "verifying_key (SigningKey k) = k"

text \<open>The signature interface: \<open>sk.sign(msg)\<close> and \<open>vk.verify(msg, sig).is_ok()\<close>.\<close>

record sig_scheme =
  sch_sign :: "signing_key \<Rightarrow> bytes \<Rightarrow> bytes"
  sch_verify :: "vkey \<Rightarrow> bytes \<Rightarrow> bytes \<Rightarrow> bool"

definition sig_correct :: "sig_scheme \<Rightarrow> bool" where
  "sig_correct S \<longleftrightarrow> (\<forall>sk m. sch_verify S (verifying_key sk) m (sch_sign S sk m))"

text \<open>\<open>struct Signed<T>\<close>.\<close>

record 'a signed =
  signature :: bytes
  signer :: vkey
  data :: 'a

type_synonym signed_ballot = "ballot signed"

text \<open>\<open>Signed::new\<close>: sign the serialisation of the payload.\<close>

definition signed_new :: "sig_scheme \<Rightarrow> ('a \<Rightarrow> bytes) \<Rightarrow> signing_key \<Rightarrow> 'a \<Rightarrow> 'a signed" where
  "signed_new S ser sk x = \<lparr>signature = sch_sign S sk (ser x), signer = verifying_key sk, data = x\<rparr>"

text \<open>\<open>Signed::signature_valid\<close>: verify with the embedded key.\<close>

definition signature_valid :: "sig_scheme \<Rightarrow> ('a \<Rightarrow> bytes) \<Rightarrow> 'a signed \<Rightarrow> bool" where
  "signature_valid S ser s = sch_verify S (signer s) (ser (data s)) (signature s)"

text \<open>A scheme for the scenarios that signs a message by the message itself.\<close>

definition echo_scheme :: sig_scheme where
  "echo_scheme = \<lparr>sch_sign = (\<lambda>sk m. m), sch_verify = (\<lambda>vk m s. s = m)\<rparr>"

section \<open>Properties\<close>

text \<open>Homomorphism of the symbolic scheme, under a decryption key that matches the
  encryption key.\<close>

lemma decrypt_add:
  "dk_n dk = ek_n ek \<Longrightarrow>
   paillier_decrypt dk (paillier_add ek a b) = (paillier_decrypt dk a + paillier_decrypt dk b) mod ek_n ek"
  by (cases a; cases b) (simp add: mod_add_eq)

lemma decrypt_mul:
  "dk_n dk = ek_n ek \<Longrightarrow>
   paillier_decrypt dk (paillier_mul ek a w) = (paillier_decrypt dk a * w) mod ek_n ek"
  by (cases a) (simp add: mod_mult_left_eq)

lemma decrypt_encrypt:
  "dk_n dk = ek_n ek \<Longrightarrow> paillier_decrypt dk (paillier_encrypt ek m r) = m mod ek_n ek"
  by (simp add: paillier_encrypt_def)

text \<open>
  C16. A ballot built by \<open>Ballot::new\<close> is well formed: under a matching key with a
  modulus above 1, \<open>vote_for\<close> decrypts to 1 for a yes and 0 for a no,
  \<open>vote_against\<close> to the other, so the two sum to 1; both range proofs record a
  plaintext below their range.
\<close>

theorem ballot_new_well_formed:
  assumes "1 < ek_n ek" and "dk_n dk = ek_n ek"
  shows "paillier_decrypt dk (vote_for (ballot_new ek verdict iid now r1 r2)) = (if verdict then 1 else 0) \<and>
         paillier_decrypt dk (vote_against (ballot_new ek verdict iid now r1 r2)) = (if verdict then 0 else 1) \<and>
         paillier_decrypt dk (vote_for (ballot_new ek verdict iid now r1 r2))
           + paillier_decrypt dk (vote_against (ballot_new ek verdict iid now r1 r2)) = 1 \<and>
         (\<exists>c s r. proof_for (ballot_new ek verdict iid now r1 r2) = RangeProofNi 3 c s r \<and> 0 \<le> s \<and> s < 3) \<and>
         (\<exists>c s r. proof_against (ballot_new ek verdict iid now r1 r2) = RangeProofNi 3 c s r \<and> 0 \<le> s \<and> s < 3)"
  using assms by (simp add: ballot_new_def encode_verdict_def decrypt_encrypt Let_def)

text \<open>
  C17. Signing round trip: under a correct signature scheme, a value signed with
  \<open>Signed::new\<close> passes \<open>signature_valid\<close>, whatever the serialisation.
\<close>

theorem signed_new_valid:
  assumes "sig_correct S"
  shows "signature_valid S ser (signed_new S ser sk x)"
  using assms by (simp add: sig_correct_def signature_valid_def signed_new_def)

section \<open>Witnesses\<close>

theorem ballot_new_well_formed_witness:
  "1 < ek_n \<lparr>ek_n = 7\<rparr> \<and> dk_n \<lparr>dk_n = 7\<rparr> = ek_n \<lparr>ek_n = 7\<rparr> \<and>
   paillier_decrypt \<lparr>dk_n = 7\<rparr> (vote_for (ballot_new \<lparr>ek_n = 7\<rparr> True ''issue'' 0 5 6)) = 1"
  using ballot_new_well_formed [of "\<lparr>ek_n = 7\<rparr>" "\<lparr>dk_n = 7\<rparr>" True "''issue''" 0 5 6] by simp

text \<open>A toy scheme in which a signature is the key byte followed by the message.\<close>

theorem signed_new_valid_witness:
  "sig_correct \<lparr>sch_sign = (\<lambda>sk m. word_of_nat (verifying_key sk) # m),
                sch_verify = (\<lambda>vk m s. s = word_of_nat vk # m)\<rparr> \<and>
   signature_valid \<lparr>sch_sign = (\<lambda>sk m. word_of_nat (verifying_key sk) # m),
                    sch_verify = (\<lambda>vk m s. s = word_of_nat vk # m)\<rparr>
     (\<lambda>n. [word_of_nat n]) (signed_new \<lparr>sch_sign = (\<lambda>sk m. word_of_nat (verifying_key sk) # m),
                    sch_verify = (\<lambda>vk m s. s = word_of_nat vk # m)\<rparr>
       (\<lambda>n. [word_of_nat n]) (SigningKey 3) (42::nat))"
proof -
  have c: "sig_correct \<lparr>sch_sign = (\<lambda>sk m. word_of_nat (verifying_key sk) # m),
                        sch_verify = (\<lambda>vk m s. s = word_of_nat vk # m)\<rparr>"
    by (simp add: sig_correct_def)
  show ?thesis
    using c signed_new_valid [OF c, of "\<lambda>n. [word_of_nat n]" "SigningKey 3" "42::nat"] by simp
qed

end
