(* ===== verification/Client.thy ===== *)
theory Client
  imports Ballot
begin

text \<open>
  The voting client of \<open>src/client/src\<close>: its configuration (\<open>config.rs\<close>), the
  \<open>cast\<close> subcommand that builds and signs a ballot (\<open>cast.rs\<close>) and the key
  generation of \<open>main.rs\<close>. The file system is a map from paths to the signing key
  a file holds; reading a missing file is the panic of its \<open>unwrap\<close>, the value
  \<open>None\<close>. The trustee key file, the clock and the encryption randomness are
  inputs. \<open>cast\<close> returns the signed ballot and the port it dials; what
  \<open>send_to_swarm\<close> then does is the trace of its effects on the swarm (the swarm
  construction itself is the libp2p library), and \<open>cast_run\<close> composes the two.
\<close>

section \<open>Paths\<close>

text \<open>Decimal rendering of a natural, as \<open>format!\<close> and \<open>to_string\<close> print it.\<close>

fun nat_to_string :: "nat \<Rightarrow> string" where
  "nat_to_string n =
     (if n < 10 then [''0123456789'' ! n] else nat_to_string (n div 10) @ [''0123456789'' ! (n mod 10)])"

declare nat_to_string.simps [simp del]

text \<open>\<open>format!("./temp/identities/{identity}.der")\<close>.\<close>

definition identity_path :: "nat \<Rightarrow> string" where
  "identity_path i = ''./temp/identities/'' @ nat_to_string i @ ''.der''"

text \<open>\<open>Path::parent\<close> of a file path (everything before the last separator) and
  \<open>Path::join\<close>.\<close>

definition path_parent :: "string \<Rightarrow> string" where
  "path_parent p = rev (drop 1 (dropWhile (\<lambda>c. c \<noteq> CHR ''/'') (rev p)))"

definition path_join :: "string \<Rightarrow> string \<Rightarrow> string" where
  "path_join d f = d @ ''/'' @ f"

type_synonym file_system = "string \<rightharpoonup> signing_key"

section \<open>Configuration\<close>

text \<open>\<open>struct Cfg\<close> and its default.\<close>

record cfg =
  secret_key_path :: string

definition cfg_default :: cfg where
  "cfg_default = \<lparr>secret_key_path = ''./temp/identities/default.der''\<rparr>"

section \<open>Casting a ballot\<close>

text \<open>\<open>struct CastArgs\<close>.\<close>

record cast_args =
  cast_issue :: string
  cast_verdict :: bool
  cast_id :: "nat option"
  cast_peer_port :: "nat option"

text \<open>The key file \<open>cast\<close> reads: the identity file of \<open>--id\<close>, else the
  configured secret key path.\<close>

definition cast_key_path :: "cast_args \<Rightarrow> cfg \<Rightarrow> string" where
  "cast_key_path args c = (case cast_id args of Some i \<Rightarrow> identity_path i | None \<Rightarrow> secret_key_path c)"

text \<open>The port \<open>cast\<close> dials: \<open>--peer-port\<close>, else 47474.\<close>

definition cast_port :: "cast_args \<Rightarrow> nat" where
  "cast_port args = (case cast_peer_port args of Some p \<Rightarrow> p | None \<Rightarrow> 47474)"

text \<open>
  \<open>cast\<close>: read the trustee key, build the ballot with \<open>Ballot::new\<close>, read the
  signing key and sign with \<open>Signed::new\<close>; the result is what is handed to
  \<open>send_to_swarm\<close>. \<open>None\<close> is a panic on a missing key file.
\<close>

definition cast ::
  "sig_scheme \<Rightarrow> (ballot \<Rightarrow> bytes) \<Rightarrow> encryption_key option \<Rightarrow> file_system \<Rightarrow> int \<Rightarrow> int \<Rightarrow> int \<Rightarrow>
   cast_args \<Rightarrow> cfg \<Rightarrow> (signed_ballot \<times> nat) option" where
  "cast S ser trustees fs now r1 r2 args c =
     (case trustees of
        None \<Rightarrow> None
      | Some ek \<Rightarrow>
          (let ballot = ballot_new ek (cast_verdict args) (cast_issue args) now r1 r2
           in case fs (cast_key_path args c) of
                None \<Rightarrow> None
              | Some sk \<Rightarrow> Some (signed_new S ser sk ballot, cast_port args)))"

text \<open>What \<open>send_to_swarm\<close> does on the network, in order: listen on every
  interface, subscribe to the ballot topic, dial the fixed peer address, wait five
  seconds, publish the serialised packet on the topic, wait one second. The
  serialisation (\<open>bincode::serialize\<close>) is a parameter; the swarm set-up and the
  events printed while waiting are I/O.\<close>

datatype 'm client_action = ListenOn string | Subscribe string | DialAddr string | WaitFor nat | Publish string 'm

definition send_to_swarm :: "(signed_ballot \<Rightarrow> 'm) \<Rightarrow> signed_ballot \<Rightarrow> nat \<Rightarrow> 'm client_action list" where
  "send_to_swarm wire ballot peer_port =
     [ListenOn ''/ip4/0.0.0.0/tcp/0'', Subscribe ''ballot-cast'',
      DialAddr (''/ip4/192.168.1.7/tcp/'' @ nat_to_string peer_port), WaitFor 5,
      Publish ''ballot-cast'' (wire ballot), WaitFor 1]"

text \<open>\<open>cast\<close> with its last call, \<open>send_to_swarm(ballot_signed, cfg, sk, peer_port)\<close>.\<close>

definition cast_run ::
  "sig_scheme \<Rightarrow> (ballot \<Rightarrow> bytes) \<Rightarrow> (signed_ballot \<Rightarrow> 'm) \<Rightarrow> encryption_key option \<Rightarrow> file_system \<Rightarrow>
   int \<Rightarrow> int \<Rightarrow> int \<Rightarrow> cast_args \<Rightarrow> cfg \<Rightarrow> 'm client_action list option" where
  "cast_run S ser wire trustees fs now r1 r2 args c =
     (case cast S ser trustees fs now r1 r2 args c of
        None \<Rightarrow> None
      | Some (ballot_signed, peer_port) \<Rightarrow> Some (send_to_swarm wire ballot_signed peer_port))"

section \<open>Key generation\<close>

text \<open>\<open>generate_keys\<close>: write a freshly generated key (an input) to the configured
  path.\<close>

definition generate_keys :: "cfg \<Rightarrow> signing_key \<Rightarrow> file_system \<Rightarrow> file_system" where
  "generate_keys c sk fs = fs(secret_key_path c \<mapsto> sk)"

text \<open>\<open>generate_population\<close>: one key is generated before the loop and written to
  each of the files \<open>6.der\<close> to \<open>19.der\<close> beside the configured key.\<close>

definition population_path :: "cfg \<Rightarrow> nat \<Rightarrow> string" where
  "population_path c i = path_join (path_parent (secret_key_path c)) (nat_to_string i @ ''.der'')"

definition generate_population :: "cfg \<Rightarrow> signing_key \<Rightarrow> file_system \<Rightarrow> file_system" where
  "generate_population c sk fs = fold (\<lambda>i f. f(population_path c i \<mapsto> sk)) [6..<20] fs"

text \<open>The subcommands of the client and \<open>main\<close>'s dispatch. The effect of a run is
  the packet cast, if any, and the file system after it.\<close>

datatype sub_command = Cast cast_args | InitKeys | Debugging

definition client_main ::
  "sig_scheme \<Rightarrow> (ballot \<Rightarrow> bytes) \<Rightarrow> encryption_key option \<Rightarrow> int \<Rightarrow> int \<Rightarrow> int \<Rightarrow> signing_key \<Rightarrow>
   cfg \<Rightarrow> file_system \<Rightarrow> sub_command \<Rightarrow> ((signed_ballot \<times> nat) option \<times> file_system) option" where
  "client_main S ser trustees now r1 r2 fresh c fs cmd =
     (case cmd of
        Cast args \<Rightarrow> (case cast S ser trustees fs now r1 r2 args c of
                        None \<Rightarrow> None
                      | Some p \<Rightarrow> Some (Some p, fs))
      | InitKeys \<Rightarrow> Some (None, generate_keys c fresh fs)
      | Debugging \<Rightarrow> Some (None, fs))"

section \<open>Lemmas\<close>

lemma fold_upd_const_at:
  "fold (\<lambda>i m. m(f i \<mapsto> v)) xs m0 x = (if x \<in> f ` set xs then Some v else m0 x)"
  by (induction xs arbitrary: m0) auto

lemma cast_Some:
  "cast S ser trustees fs now r1 r2 args c = Some (sb, port) \<longleftrightarrow>
   (\<exists>ek sk. trustees = Some ek \<and> fs (cast_key_path args c) = Some sk \<and>
      sb = signed_new S ser sk (ballot_new ek (cast_verdict args) (cast_issue args) now r1 r2) \<and>
      port = cast_port args)"
  by (auto simp: cast_def Let_def split: option.splits)

lemma cast_run_publish:
  "cast_run S ser wire trustees fs now r1 r2 args c = Some acts \<Longrightarrow> Publish topic msg \<in> set acts \<Longrightarrow>
   \<exists>sb port. cast S ser trustees fs now r1 r2 args c = Some (sb, port) \<and> topic = ''ballot-cast'' \<and> msg = wire sb"
  by (auto simp: cast_run_def send_to_swarm_def split: option.splits)

lemma population_path_default: "population_path cfg_default i = identity_path i"
  by (simp add: population_path_def path_parent_def path_join_def cfg_default_def identity_path_def)

lemma generate_population_default:
  "i \<in> {6..<20} \<Longrightarrow> generate_population cfg_default sk fs (identity_path i) = Some sk"
proof -
  assume i: "i \<in> {6..<20}"
  have "identity_path i \<in> population_path cfg_default ` set [6..<20]"
    by (rule image_eqI [where x = i]) (simp_all only: population_path_default set_upt i)
  then show ?thesis
    using fold_upd_const_at [of "population_path cfg_default" sk "[6..<20]" fs "identity_path i"]
    by (simp only: generate_population_def if_True)
qed

text \<open>
  C30. A cast packet is a well-formed ballot signed by the key of the chosen file:
  when the trustee key and the signing key file are present, \<open>cast\<close> returns a
  ballot on the given issue whose signature verifies (for a correct signature
  scheme), whose signer is the key file's key and whose two counters decrypt to
  the verdict and its negation, to be sent to the given port or 47474.
\<close>

theorem cast_packet:
  assumes sig: "sig_correct S" and keys: "1 < ek_n ek" "dk_n dk = ek_n ek"
    and key: "fs (cast_key_path args c) = Some sk"
  shows "\<exists>sb. cast S ser (Some ek) fs now r1 r2 args c = Some (sb, cast_port args) \<and>
           signature_valid S ser sb \<and> signer sb = verifying_key sk \<and> issue_id (data sb) = cast_issue args \<and>
           paillier_decrypt dk (vote_for (data sb)) = (if cast_verdict args then 1 else 0) \<and>
           paillier_decrypt dk (vote_against (data sb)) = (if cast_verdict args then 0 else 1)"
  using assms
  by (simp add: cast_Some sig_correct_def signature_valid_def signed_new_def ballot_new_def
                encode_verdict_def decrypt_encrypt Let_def)


section \<open>Witnesses\<close>

text \<open>Identity 3 casts a yes vote on issue \<open>vote\<close> under the echo scheme.\<close>

definition demo_args :: cast_args where
  "demo_args = \<lparr>cast_issue = ''vote'', cast_verdict = True, cast_id = Some 3, cast_peer_port = None\<rparr>"

lemma demo_key_path: "cast_key_path demo_args cfg_default = ''./temp/identities/3.der''"
  by (simp add: cast_key_path_def demo_args_def identity_path_def nat_to_string.simps)

theorem cast_packet_witness:
  "\<exists>sb. cast echo_scheme (\<lambda>_. []) (Some \<lparr>ek_n = 7\<rparr>) [''./temp/identities/3.der'' \<mapsto> SigningKey 3] 5 1 2
          demo_args cfg_default = Some (sb, 47474) \<and>
        signature_valid echo_scheme (\<lambda>_. []) sb \<and> signer sb = 3 \<and> issue_id (data sb) = ''vote'' \<and>
        paillier_decrypt \<lparr>dk_n = 7\<rparr> (vote_for (data sb)) = 1 \<and> paillier_decrypt \<lparr>dk_n = 7\<rparr> (vote_against (data sb)) = 0"
proof -
  have s: "sig_correct echo_scheme" by (simp add: sig_correct_def echo_scheme_def)
  have k: "[''./temp/identities/3.der'' \<mapsto> SigningKey 3] (cast_key_path demo_args cfg_default) = Some (SigningKey 3)"
    by (simp add: demo_key_path)
  show ?thesis
    using cast_packet [of echo_scheme "\<lparr>ek_n = 7\<rparr>" "\<lparr>dk_n = 7\<rparr>" "[''./temp/identities/3.der'' \<mapsto> SigningKey 3]"
                          demo_args cfg_default "SigningKey 3" "\<lambda>_. []" 5 1 2, OF s _ _ k]
    by (simp add: demo_args_def cast_port_def)
qed

end
