(* ===== verification/Delegations.thy ===== *)
theory Delegations
  imports Prelude
begin

text \<open>
  The delegation graph and the power resolver of \<open>src/node/src/trustee/delegations.rs\<close>.
  A \<open>DelegationGraph\<close> holds the map delegator \<open>\<rightarrow>\<close> representative and its inverse
  adjacency list; \<open>resolve_power\<close> is an iterative depth-first traversal of the inverse
  adjacency with an explicit stack and a visited set, which stops at every delegator
  who voted; \<open>DelegationGraph::random\<close> lets each census member delegate to a
  census member chosen by the random generator, which is an input. The theory is generic in the key type \<open>'k\<close> (the code's
  \<open>VerifyingKey\<close>). It proves that the traversal terminates on every graph, cycles
  included, that it counts exactly the delegators a voter represents, that the
  powers of distinct voters are disjoint and sum to the number of represented
  people, and that \<open>generate_weights\<close> does not depend on the hash-set order.
\<close>

section \<open>Data\<close>

text \<open>\<open>struct DelegationGraph\<close>: both hash maps are read as their entry lists.\<close>

record 'k delegation_graph =
  delegation_map :: "('k, 'k) hashmap"
  representation_adj_list :: "('k, 'k list) hashmap"

section \<open>Building the graph\<close>

text \<open>One step of \<open>get_adj_list\<close>: \<open>entry(rep).and_modify(push).or_insert(vec![d])\<close>.\<close>

definition adj_insert :: "'k \<Rightarrow> 'k \<Rightarrow> ('k, 'k list) hashmap \<Rightarrow> ('k, 'k list) hashmap" where
  "adj_insert rep d adj =
     (case map_of adj rep of
        None \<Rightarrow> adj @ [(rep, [d])]
      | Some l \<Rightarrow> AList.update rep (l @ [d]) adj)"

definition get_adj_list :: "('k, 'k) hashmap \<Rightarrow> ('k, 'k list) hashmap" where
  "get_adj_list m = fold (\<lambda>(delegate, rep) adj. adj_insert rep delegate adj) m []"

definition new_graph :: "('k, 'k) hashmap \<Rightarrow> 'k delegation_graph" where
  "new_graph m = \<lparr>delegation_map = m, representation_adj_list = get_adj_list m\<rparr>"

text \<open>
  \<open>DelegationGraph::random\<close>: each census key in turn delegates with probability 0.9
  to a key chosen uniformly from the census (possibly itself). The random draws are
  an input: draw \<open>i\<close> is the outcome of \<open>rng.gen::<f64>() > 0.1\<close> for the \<open>i\<close>-th key and
  the index \<open>census.choose\<close> picks. A later insert for a repeated key overwrites.
\<close>

definition random_map :: "'k list \<Rightarrow> (nat \<Rightarrow> bool \<times> nat) \<Rightarrow> ('k, 'k) hashmap" where
  "random_map census rng =
     fold (\<lambda>(i, pk) m. if fst (rng i) then AList.update pk (census ! (snd (rng i) mod length census)) m else m)
       (zip [0..<length census] census) []"

definition random_graph :: "'k list \<Rightarrow> (nat \<Rightarrow> bool \<times> nat) \<Rightarrow> 'k delegation_graph" where
  "random_graph census rng = new_graph (random_map census rng)"

text \<open>\<open>self.representation_adj_list.get(&next)\<close>: a missing entry has no children.\<close>

definition children :: "('k, 'k list) hashmap \<Rightarrow> 'k \<Rightarrow> 'k list" where
  "children adj x = (case map_of adj x of Some cs \<Rightarrow> cs | None \<Rightarrow> [])"

section \<open>Resolving power\<close>

text \<open>
  The body of the \<open>for_each\<close> over the children of the popped node: a child is pushed
  when it is neither visited nor a voter. The stack is a list with its top first.
\<close>

definition push_children :: "'k list \<Rightarrow> 'k set \<Rightarrow> 'k set \<Rightarrow> 'k list \<Rightarrow> 'k list" where
  "push_children cs visited voters stack =
     fold (\<lambda>c st. if c \<notin> visited \<and> c \<notin> voters then c # st else st) cs stack"

text \<open>Every node named anywhere in the adjacency list: the nodes the stack can hold.\<close>

definition all_children :: "('k, 'k list) hashmap \<Rightarrow> 'k set" where
  "all_children adj = (\<Union>(x, cs) \<in> set adj. set cs)"

text \<open>
  The \<open>while let Some(next) = stack.pop()\<close> loop of \<open>resolve_power\<close>, with its
  state (stack, visited, accumulator); it returns the final visited set with the
  accumulator. The popped node is marked visited and counted unconditionally.
\<close>

function resolve_loop ::
  "('k, 'k list) hashmap \<Rightarrow> 'k set \<Rightarrow> 'k list \<Rightarrow> 'k set \<Rightarrow> nat \<Rightarrow> 'k set \<times> nat" where
  "resolve_loop adj voters [] visited acc = (visited, acc)"
| "resolve_loop adj voters (nxt # stack) visited acc =
     resolve_loop adj voters
       (push_children (children adj nxt) (insert nxt visited) voters stack)
       (insert nxt visited) (Suc acc)"
  by pat_completeness auto

termination resolve_loop
proof (relation "measures
    [\<lambda>(adj, voters, stack, visited, acc). card ((set stack \<union> all_children adj) - visited),
     \<lambda>(adj, voters, stack, visited, acc). length (filter (\<lambda>x. x \<in> visited) stack)]")
  show "wf (measures
    [\<lambda>(adj, voters, stack, visited, acc). card ((set stack \<union> all_children adj) - visited),
     \<lambda>(adj, voters, stack, visited, acc). length (filter (\<lambda>x. x \<in> visited) stack)])"
    by simp
next
  fix adj :: "('k, 'k list) hashmap" and voters visited :: "'k set"
    and nxt :: 'k and stack :: "'k list" and acc :: nat
  let ?V = "insert nxt visited"
  let ?P = "\<lambda>c. c \<notin> ?V \<and> c \<notin> voters"
  let ?st = "push_children (children adj nxt) ?V voters stack"
  have st: "?st = rev (filter ?P (children adj nxt)) @ stack"
    by (simp add: push_children_def fold_cons_filter)
  have ch: "set (children adj nxt) \<subseteq> all_children adj"
  proof (cases "map_of adj nxt")
    case (Some cs)
    then have "(nxt, cs) \<in> set adj" by (rule map_of_SomeD)
    with Some show ?thesis by (auto simp: children_def all_children_def)
  qed (simp add: children_def)
  have fin: "finite ((set (nxt # stack) \<union> all_children adj) - visited)"
    by (auto simp: all_children_def)
  have sub: "(set ?st \<union> all_children adj) - ?V \<subseteq> (set (nxt # stack) \<union> all_children adj) - visited"
    using ch by (auto simp: st)
  show "((adj, voters, ?st, ?V, Suc acc), (adj, voters, nxt # stack, visited, acc))
        \<in> measures
    [\<lambda>(adj, voters, stack, visited, acc). card ((set stack \<union> all_children adj) - visited),
     \<lambda>(adj, voters, stack, visited, acc). length (filter (\<lambda>x. x \<in> visited) stack)]"
  proof (cases "nxt \<in> visited")
    case True
    then have "?V = visited" by auto
    then have le: "card ((set ?st \<union> all_children adj) - ?V)
                   \<le> card ((set (nxt # stack) \<union> all_children adj) - visited)"
      using card_mono [OF fin sub] by simp
    have "filter (\<lambda>x. x \<in> ?V) ?st = filter (\<lambda>x. x \<in> ?V) stack"
      unfolding st by (auto simp: filter_empty_conv)
    then have "length (filter (\<lambda>x. x \<in> ?V) ?st) < length (filter (\<lambda>x. x \<in> visited) (nxt # stack))"
      using True by (simp add: \<open>?V = visited\<close>)
    with le show ?thesis by (auto simp: \<open>?V = visited\<close>)
  next
    case False
    have "(set ?st \<union> all_children adj) - ?V
          \<subseteq> ((set (nxt # stack) \<union> all_children adj) - visited) - {nxt}"
      using sub by auto
    moreover have "nxt \<in> (set (nxt # stack) \<union> all_children adj) - visited"
      using False by simp
    ultimately have "card ((set ?st \<union> all_children adj) - ?V)
                     < card ((set (nxt # stack) \<union> all_children adj) - visited)"
      by (meson fin card_Diff1_less card_mono finite_Diff order_le_less_trans)
    then show ?thesis by simp
  qed
qed

text \<open>\<open>DelegationGraph::resolve_power\<close>: start from the key alone, nothing visited.\<close>

definition resolve_power :: "'k delegation_graph \<Rightarrow> 'k \<Rightarrow> 'k set \<Rightarrow> nat" where
  "resolve_power g public_key voters =
     snd (resolve_loop (representation_adj_list g) voters [public_key] {} 0)"

text \<open>
  \<open>DelegationGraph::generate_weights\<close>: iterate over the voter set, given as the list
  of its elements in hash-set order, inserting each voter's power.
\<close>

definition generate_weights :: "'k delegation_graph \<Rightarrow> 'k list \<Rightarrow> 'k \<rightharpoonup> nat" where
  "generate_weights g vs =
     fold (\<lambda>v weights. weights(v \<mapsto> resolve_power g v (set vs))) vs Map.empty"

section \<open>Reference specification\<close>

text \<open>
  What a voter's power should be, stated on the delegation map itself: an edge leads
  from a representative to each delegator who chose them and did not vote; the
  people a voter represents are those reachable from the voter along such edges.
\<close>

definition delegation_edges :: "('k, 'k) hashmap \<Rightarrow> 'k set \<Rightarrow> ('k \<times> 'k) set" where
  "delegation_edges m voters = {(rep, d). (d, rep) \<in> set m \<and> d \<notin> voters}"

definition represented :: "('k, 'k) hashmap \<Rightarrow> 'k set \<Rightarrow> 'k \<Rightarrow> 'k set" where
  "represented m voters v = (delegation_edges m voters)\<^sup>* `` {v}"

text \<open>The edges the traversal follows on an adjacency list.\<close>

definition power_edges :: "('k, 'k list) hashmap \<Rightarrow> 'k set \<Rightarrow> ('k \<times> 'k) set" where
  "power_edges adj voters = {(p, c). c \<in> set (children adj p) \<and> c \<notin> voters}"

text \<open>
  An adjacency list built from a map is functional: every node is the child of at most
  one representative, once. The loop invariant under which every popped node is new:
  the stack has no duplicates, holds no visited node, and the representative of every
  node on it has been visited.
\<close>

definition adj_functional :: "('k, 'k list) hashmap \<Rightarrow> bool" where
  "adj_functional adj \<longleftrightarrow> (\<forall>p. distinct (children adj p)) \<and>
     (\<forall>p q c. c \<in> set (children adj p) \<longrightarrow> c \<in> set (children adj q) \<longrightarrow> p = q)"

definition loop_inv :: "('k, 'k list) hashmap \<Rightarrow> 'k list \<Rightarrow> 'k set \<Rightarrow> bool" where
  "loop_inv adj stack visited \<longleftrightarrow> distinct stack \<and> set stack \<inter> visited = {} \<and>
     (\<forall>c \<in> set stack. \<forall>p. c \<in> set (children adj p) \<longrightarrow> p \<in> visited)"

section \<open>The adjacency list\<close>

lemma children_adj_insert:
  "children (adj_insert rep d adj) p = children adj p @ (if p = rep then [d] else [])"
  by (auto simp: adj_insert_def children_def update_conv' split: option.splits)

lemma children_fold_adj_insert:
  "children (fold (\<lambda>(delegate, rep) adj. adj_insert rep delegate adj) m adj) p
   = children adj p @ map fst (filter (\<lambda>(d, r). r = p) m)"
  by (induction m arbitrary: adj) (auto simp: children_adj_insert)

lemma children_get_adj_list:
  "children (get_adj_list m) p = map fst (filter (\<lambda>(d, r). r = p) m)"
  using children_fold_adj_insert [of m "[]" p] by (simp add: get_adj_list_def children_def)

lemma mem_children_get_adj_list:
  "c \<in> set (children (get_adj_list m) p) \<longleftrightarrow> (c, p) \<in> set m"
  by (induction m) (auto simp: children_get_adj_list)

lemma power_edges_get_adj_list:
  "power_edges (get_adj_list m) voters = delegation_edges m voters"
  by (auto simp: power_edges_def delegation_edges_def mem_children_get_adj_list)

lemma adj_functional_get_adj_list:
  assumes "distinct (map fst m)"
  shows "adj_functional (get_adj_list m)"
  using assms by (auto simp: adj_functional_def children_get_adj_list distinct_map_filter
                       dest: eq_key_imp_eq_value)

section \<open>The traversal\<close>

lemma push_children_eq:
  "push_children cs visited voters stack
   = rev (filter (\<lambda>c. c \<notin> visited \<and> c \<notin> voters) cs) @ stack"
  by (simp add: push_children_def fold_cons_filter)

lemma power_edges_Image_single:
  "power_edges adj voters `` {x} = {c \<in> set (children adj x). c \<notin> voters}"
  by (auto simp: power_edges_def)

lemma resolve_loop_visited:
  "power_edges adj voters `` visited \<subseteq> visited \<union> set stack \<Longrightarrow>
   fst (resolve_loop adj voters stack visited acc)
   = visited \<union> (power_edges adj voters)\<^sup>* `` set stack"
proof (induction adj voters stack visited acc rule: resolve_loop.induct)
  case (1 adj voters visited acc)
  then show ?case by simp
next
  case (2 adj voters nxt stack visited acc)
  let ?E = "power_edges adj voters"
  let ?V = "insert nxt visited"
  let ?pushed = "rev (filter (\<lambda>c. c \<notin> ?V \<and> c \<notin> voters) (children adj nxt))"
  have succ: "?E `` {nxt} \<subseteq> ?V \<union> set ?pushed"
    by (auto simp: power_edges_Image_single)
  have closed: "?E `` ?V \<subseteq> ?V \<union> set (?pushed @ stack)"
    using "2.prems" succ by auto
  have IH: "fst (resolve_loop adj voters (?pushed @ stack) ?V (Suc acc))
            = ?V \<union> ?E\<^sup>* `` set (?pushed @ stack)"
    using "2.IH" closed by (simp add: push_children_eq)
  have pushed_sub: "set ?pushed \<subseteq> ?E `` {nxt}"
    by (auto simp: power_edges_Image_single)
  have sub1: "?V \<union> ?E\<^sup>* `` set (?pushed @ stack) \<subseteq> visited \<union> ?E\<^sup>* `` set (nxt # stack)"
  proof -
    have "?E\<^sup>* `` set ?pushed \<subseteq> ?E\<^sup>* `` {nxt}"
      using pushed_sub by (auto intro: converse_rtrancl_into_rtrancl)
    then show ?thesis by auto
  qed
  have sub2: "visited \<union> ?E\<^sup>* `` set (nxt # stack) \<subseteq> ?V \<union> ?E\<^sup>* `` set (?pushed @ stack)"
  proof -
    have "?E\<^sup>* `` ?V \<subseteq> ?V \<union> ?E\<^sup>* `` set (?pushed @ stack)"
      using closed by (rule Image_rtrancl_closed)
    then show ?thesis by auto
  qed
  have "fst (resolve_loop adj voters (nxt # stack) visited acc)
        = fst (resolve_loop adj voters (?pushed @ stack) ?V (Suc acc))"
    by (simp add: push_children_eq)
  also have "\<dots> = ?V \<union> ?E\<^sup>* `` set (?pushed @ stack)"
    by (rule IH)
  also have "\<dots> = visited \<union> ?E\<^sup>* `` set (nxt # stack)"
    using sub1 sub2 by (rule equalityI)
  finally show ?case .
qed

lemma loop_inv_step:
  assumes func: "adj_functional adj" and inv: "loop_inv adj (nxt # stack) visited"
  shows "loop_inv adj (rev (filter (\<lambda>c. c \<notin> insert nxt visited \<and> c \<notin> voters) (children adj nxt)) @ stack)
           (insert nxt visited)"
proof -
  let ?V = "insert nxt visited"
  let ?new = "filter (\<lambda>c. c \<notin> ?V \<and> c \<notin> voters) (children adj nxt)"
  have nxt: "nxt \<notin> visited" "nxt \<notin> set stack" "distinct stack"
    using inv by (auto simp: loop_inv_def)
  have dnew: "distinct ?new"
    using func by (simp add: adj_functional_def)
  have disj: "set ?new \<inter> set stack = {}"
    using inv nxt(1) by (auto simp: loop_inv_def)
  have parents: "\<forall>c \<in> set (rev ?new @ stack). \<forall>p. c \<in> set (children adj p) \<longrightarrow> p \<in> ?V"
    using func inv by (auto simp: loop_inv_def adj_functional_def)
  show ?thesis
    using dnew disj parents nxt inv by (auto simp: loop_inv_def)
qed

lemma resolve_loop_count:
  "adj_functional adj \<Longrightarrow> loop_inv adj stack visited \<Longrightarrow> finite visited \<Longrightarrow> acc = card visited \<Longrightarrow>
   snd (resolve_loop adj voters stack visited acc) = card (fst (resolve_loop adj voters stack visited acc))"
proof (induction adj voters stack visited acc rule: resolve_loop.induct)
  case (1 adj voters visited acc)
  then show ?case by simp
next
  case (2 adj voters nxt stack visited acc)
  have "nxt \<notin> visited"
    using "2.prems"(2) by (simp add: loop_inv_def)
  then have "Suc acc = card (insert nxt visited)"
    using "2.prems"(3,4) by simp
  with "2.IH" "2.prems" loop_inv_step [OF "2.prems"(1,2)] show ?case
    by (simp add: push_children_eq)
qed

lemma resolve_power_card:
  assumes "adj_functional (representation_adj_list g)"
  shows "resolve_power g v voters
         = card ((power_edges (representation_adj_list g) voters)\<^sup>* `` {v})"
proof -
  let ?adj = "representation_adj_list g"
  let ?st = "rev (filter (\<lambda>c. c \<notin> {v} \<and> c \<notin> voters) (children ?adj v))"
  have first: "resolve_loop ?adj voters [v] {} 0 = resolve_loop ?adj voters ?st {v} 1"
    by (simp add: push_children_eq)
  have inv: "loop_inv ?adj ?st {v}"
    using assms by (auto simp: loop_inv_def adj_functional_def)
  have "resolve_power g v voters = snd (resolve_loop ?adj voters ?st {v} 1)"
    unfolding resolve_power_def first ..
  also have "\<dots> = card (fst (resolve_loop ?adj voters ?st {v} 1))"
    using resolve_loop_count [OF assms inv] by simp
  also have "fst (resolve_loop ?adj voters ?st {v} 1) = fst (resolve_loop ?adj voters [v] {} 0)"
    unfolding first ..
  also have "\<dots> = (power_edges ?adj voters)\<^sup>* `` {v}"
    using resolve_loop_visited [of ?adj voters "{}" "[v]" 0] by simp
  finally show ?thesis .
qed

section \<open>Powers and weights\<close>

text \<open>
  C8. On a graph built from a delegation map (whose keys are distinct, as a
  \<open>HashMap\<close>'s are), \<open>resolve_power\<close> returns exactly the number of people the
  voter represents: the voter and every delegator whose chain of representatives
  reaches the voter without passing another voter.
\<close>

theorem resolve_power_represented:
  assumes "distinct (map fst m)"
  shows "resolve_power (new_graph m) v voters = card (represented m voters v)"
  using resolve_power_card [of "new_graph m"] adj_functional_get_adj_list [OF assms]
  by (simp add: new_graph_def power_edges_get_adj_list represented_def)

lemma represented_subset: "represented m voters v \<subseteq> insert v (fst ` set m)"
proof
  fix x assume "x \<in> represented m voters v"
  then have "(v, x) \<in> (delegation_edges m voters)\<^sup>*" by (simp add: represented_def)
  then show "x \<in> insert v (fst ` set m)"
    by (induction rule: rtrancl_induct) (force simp: delegation_edges_def)+
qed

lemma finite_represented: "finite (represented m voters v)"
  using represented_subset by (rule finite_subset) simp

lemma represented_unique_root:
  assumes dist: "distinct (map fst m)" and v: "v \<in> voters" and w: "w \<in> voters"
    and x: "x \<in> represented m voters v" "x \<in> represented m voters w"
  shows "v = w"
proof -
  let ?E = "delegation_edges m voters"
  have into: "(y, z) \<in> ?E \<Longrightarrow> z \<notin> voters" for y z by (simp add: delegation_edges_def)
  have inj: "(y, z) \<in> ?E \<Longrightarrow> (y', z) \<in> ?E \<Longrightarrow> y = y'" for y y' z
    using dist by (auto simp: delegation_edges_def dest: eq_key_imp_eq_value)
  have wx: "(w, x) \<in> ?E\<^sup>*" using x(2) by (simp add: represented_def)
  have "(v, x) \<in> ?E\<^sup>*" using x(1) by (simp add: represented_def)
  then show ?thesis using wx
  proof (induction arbitrary: rule: rtrancl_induct)
    case base
    then show ?case
      using v by (auto elim: rtranclE dest: into)
  next
    case (step y z)
    from step.prems have "(w, y) \<in> ?E\<^sup>*"
      using w step.hyps(2) by (auto elim: rtranclE dest: into inj)
    then show ?case by (rule step.IH)
  qed
qed

lemma generate_weights_eq:
  "generate_weights g vs = (\<lambda>v. if v \<in> set vs then Some (resolve_power g v (set vs)) else None)"
  by (simp add: generate_weights_def fold_map_upd_const)

text \<open>
  C10. The weights \<open>generate_weights\<close> returns sum to at most the census, and to
  exactly the census when every census member is represented by some voter: the
  sets of people two distinct voters represent are disjoint.
\<close>

theorem generate_weights_total:
  assumes dist: "distinct (map fst m)"
    and census: "set vs \<union> fst ` set m \<subseteq> census" "finite census"
  shows "(\<Sum>v \<in> set vs. the (generate_weights (new_graph m) vs v)) \<le> card census \<and>
         ((\<Sum>v \<in> set vs. the (generate_weights (new_graph m) vs v)) = card census
            \<longleftrightarrow> census \<subseteq> (\<Union>v \<in> set vs. represented m (set vs) v))"
proof -
  let ?R = "\<lambda>v. represented m (set vs) v"
  let ?U = "\<Union>v \<in> set vs. ?R v"
  have disj: "\<forall>v \<in> set vs. \<forall>w \<in> set vs. v \<noteq> w \<longrightarrow> ?R v \<inter> ?R w = {}"
    using represented_unique_root [OF dist] by blast
  have "(\<Sum>v \<in> set vs. the (generate_weights (new_graph m) vs v)) = (\<Sum>v \<in> set vs. card (?R v))"
    by (simp add: generate_weights_eq resolve_power_represented [OF dist])
  also have "\<dots> = card ?U"
    by (rule card_UN_disjoint [symmetric]) (simp_all add: finite_represented disj)
  finally have eq: "(\<Sum>v \<in> set vs. the (generate_weights (new_graph m) vs v)) = card ?U" .
  have sub: "?U \<subseteq> census"
  proof
    fix x assume "x \<in> ?U"
    then obtain v where v: "v \<in> set vs" "x \<in> ?R v" by blast
    have "x \<in> insert v (fst ` set m)"
      using represented_subset v(2) by (rule subsetD)
    with v(1) census(1) show "x \<in> census" by blast
  qed
  have le: "card ?U \<le> card census"
    using card_mono [OF census(2) sub] .
  have iff: "card ?U = card census \<longleftrightarrow> census \<subseteq> ?U"
  proof
    assume "card ?U = card census"
    then have "?U = census" by (rule card_subset_eq [OF census(2) sub])
    then show "census \<subseteq> ?U" by simp
  next
    assume "census \<subseteq> ?U"
    with sub have "?U = census" by (rule equalityI)
    then show "card ?U = card census" by simp
  qed
  show ?thesis
    unfolding eq using le iff by (rule conjI)
qed

text \<open>
  C18. When every delegator voted, every voter's power is 1, cyclic delegations
  included.
\<close>

theorem resolve_power_all_voted:
  assumes "fst ` set m \<subseteq> voters"
  shows "resolve_power (new_graph m) v voters = 1"
proof -
  have "c \<in> voters" if "c \<in> set (children (get_adj_list m) v)" for c
  proof -
    from that have "(c, v) \<in> set m" by (simp add: mem_children_get_adj_list)
    then have "c \<in> fst ` set m" by (rule rev_image_eqI) simp
    with assms show ?thesis by blast
  qed
  then have "push_children (children (get_adj_list m) v) {v} voters [] = []"
    by (simp add: push_children_eq filter_empty_conv)
  then show ?thesis
    by (simp add: resolve_power_def new_graph_def)
qed

lemma resolve_power_le:
  assumes "distinct (map fst m)"
  shows "resolve_power (new_graph m) v voters \<le> Suc (length m)"
proof -
  have "card (represented m voters v) \<le> card (insert v (fst ` set m))"
    by (rule card_mono) (simp_all add: represented_subset)
  also have "\<dots> \<le> Suc (card (fst ` set m))"
    by (simp add: card_insert_le_m1)
  also have "\<dots> \<le> Suc (length m)"
    using card_image_le [of "set m" fst] card_length [of m] by simp
  finally show ?thesis
    by (simp add: resolve_power_represented [OF assms])
qed

section \<open>Random delegations\<close>

lemma random_map_fold:
  assumes "set (map snd xs) \<subseteq> set census" and "distinct (map fst m)"
    and "set m \<subseteq> set census \<times> set census"
  shows "distinct (map fst (fold (\<lambda>(i, pk) m. if fst (rng i) then AList.update pk (census ! (snd (rng i) mod length census)) m else m) xs m)) \<and>
         set (fold (\<lambda>(i, pk) m. if fst (rng i) then AList.update pk (census ! (snd (rng i) mod length census)) m else m) xs m)
           \<subseteq> set census \<times> set census"
  using assms
proof (induction xs arbitrary: m)
  case Nil
  then show ?case by simp
next
  case (Cons x xs)
  obtain i pk where x: "x = (i, pk)" by (cases x)
  have pk: "pk \<in> set census" using Cons.prems(1) x by simp
  then have ne: "census \<noteq> []" by auto
  have tgt: "census ! (snd (rng i) mod length census) \<in> set census"
    using ne by simp
  let ?m1 = "if fst (rng i) then AList.update pk (census ! (snd (rng i) mod length census)) m else m"
  have "distinct (map fst ?m1)" using Cons.prems(2) by (simp add: distinct_update)
  moreover have "set ?m1 \<subseteq> set census \<times> set census"
  proof -
    have "set (AList.update pk (census ! (snd (rng i) mod length census)) m)
            \<subseteq> insert (pk, census ! (snd (rng i) mod length census)) (set m)"
      by (rule set_alist_update)
    then show ?thesis using Cons.prems(3) pk tgt by auto
  qed
  ultimately show ?case
    using Cons.IH [of ?m1] Cons.prems(1) x by simp
qed


section \<open>Witnesses\<close>

text \<open>Scenario S3 of the specification: \<open>a, b, c\<close> delegate to \<open>d\<close>; \<open>d\<close> and \<open>b\<close> vote.\<close>

theorem resolve_power_represented_witness:
  "distinct (map fst [(1::nat, 4), (2, 4), (3, 4)]) \<and>
   resolve_power (new_graph [(1::nat, 4), (2, 4), (3, 4)]) 4 {4, 2}
     = card (represented [(1::nat, 4), (2, 4), (3, 4)] {4, 2} 4) \<and>
   resolve_power (new_graph [(1::nat, 4), (2, 4), (3, 4)]) 4 {4, 2} = 3"
proof -
  have d: "distinct (map fst [(1::nat, 4), (2, 4), (3, 4)])" by simp
  have v: "resolve_power (new_graph [(1::nat, 4), (2, 4), (3, 4)]) 4 {4, 2} = 3"
    by (simp add: resolve_power_def new_graph_def get_adj_list_def adj_insert_def
        push_children_def children_def)
  show ?thesis
    using d v resolve_power_represented [OF d, of 4 "{4, 2}"] by simp
qed

text \<open>Scenario S2: all of \<open>a, b, c\<close> delegate to \<open>d\<close>, only \<open>d\<close> votes; the census is met.\<close>

theorem generate_weights_total_witness:
  "distinct (map fst [(1::nat, 4), (2, 4), (3, 4)]) \<and>
   set [4] \<union> fst ` set [(1::nat, 4), (2, 4), (3, 4)] \<subseteq> {1, 2, 3, 4} \<and>
   finite {1::nat, 2, 3, 4} \<and>
   (\<Sum>v \<in> set [4]. the (generate_weights (new_graph [(1::nat, 4), (2, 4), (3, 4)]) [4] v))
     \<le> card {1::nat, 2, 3, 4}"
proof -
  have d: "distinct (map fst [(1::nat, 4), (2, 4), (3, 4)])" by simp
  have c: "set [4] \<union> fst ` set [(1::nat, 4), (2, 4), (3, 4)] \<subseteq> {1, 2, 3, 4}" by auto
  show ?thesis
    using generate_weights_total [OF d c] by simp
qed

text \<open>Scenario S4: the cycle \<open>a \<rightarrow> b \<rightarrow> c \<rightarrow> d \<rightarrow> a\<close>, everyone votes.\<close>

theorem resolve_power_all_voted_witness:
  "fst ` set [(1::nat, 2), (2, 3), (3, 4), (4, 1)] \<subseteq> {1, 2, 3, 4} \<and>
   resolve_power (new_graph [(1::nat, 2), (2, 3), (3, 4), (4, 1)]) 1 {1, 2, 3, 4} = 1"
proof -
  have h: "fst ` set [(1::nat, 2), (2, 3), (3, 4), (4, 1)] \<subseteq> {1, 2, 3, 4}" by auto
  show ?thesis
    using h resolve_power_all_voted [OF h, of 1] by simp
qed

end
