(* ===== verification/Block.thy ===== *)
theory Block
  imports Ballot
begin

unbundle bit_operations_syntax

text \<open>
  Blocks and the signature-based proof of work of
  \<open>src/node/src/votechain/block.rs\<close>. The BLAKE3 hasher is an interface: a
  digest of the block's timestamp, previous hash and ballots (the three things
  \<open>Block::hash\<close> feeds it), the digest's bytes, and the all-zero digest. The hash type
  is a type variable \<open>'h\<close>, so that the lemmas hold for every hash function and a
  hypothesis such as "the digest binds the previous hash" is explicit where a proof
  needs it. Randomness (the nonces \<open>proof_of_work\<close> draws) is an input tape, and the
  clock reading of \<open>Block::new\<close> is an input. The theory proves that a mined block
  is valid on top of its predecessor, what the acceptance test of the proof of work
  really requires (twelve zero bits, not the four its comment says), that the
  search returns exactly when the tape holds an accepted nonce, and that the hash
  ignores the signer, signature, nonce and the kind of a non-ballot block.
\<close>

section \<open>Data\<close>

text \<open>\<open>enum BlockData\<close>.\<close>

datatype block_data = Genesis string | Ballots "signed_ballot list" | Seal string

text \<open>\<open>struct Block\<close>; the fields are prefixed where they would clash with the
  fields of \<open>Ballot\<close> and \<open>Signed\<close>.\<close>

record 'h block =
  block_timestamp :: nat
  previous_hash :: 'h
  signatory :: vkey
  block_signature :: bytes
  block_content :: block_data
  nonce :: bytes

text \<open>The BLAKE3 interface used by \<open>Block::hash\<close> and the proof of work.\<close>

record 'h hasher =
  digest :: "nat \<Rightarrow> 'h \<Rightarrow> signed_ballot list \<Rightarrow> 'h"
  hash_bytes :: "'h \<Rightarrow> bytes"
  zero_hash :: 'h

section \<open>Hashing and validity\<close>

text \<open>\<open>Block::get_ballots\<close>.\<close>

fun get_ballots :: "'h block \<Rightarrow> signed_ballot list option" where
  "get_ballots b = (case block_content b of Ballots bs \<Rightarrow> Some bs | _ \<Rightarrow> None)"

text \<open>\<open>Block::hash\<close>: timestamp, previous hash, then each ballot of a \<open>Ballots\<close> block.\<close>

definition block_hash :: "'h hasher \<Rightarrow> 'h block \<Rightarrow> 'h" where
  "block_hash H b =
     digest H (block_timestamp b) (previous_hash b)
       (case block_content b of Ballots bs \<Rightarrow> bs | _ \<Rightarrow> [])"

text \<open>\<open>Block::is_valid\<close>: only the link to the predecessor is checked.\<close>

definition is_valid :: "'h hasher \<Rightarrow> 'h block \<Rightarrow> 'h block \<Rightarrow> bool" where
  "is_valid H b prev \<longleftrightarrow> previous_hash b = block_hash H prev"

section \<open>Proof of work\<close>

text \<open>The first eight bytes of the hash XOR the nonce; the rest unchanged.\<close>

definition pow_adjusted :: "bytes \<Rightarrow> bytes \<Rightarrow> bytes" where
  "pow_adjusted h n = map2 (\<lambda>a b. a XOR b) (take 8 h) (take 8 n) @ drop 8 h"

text \<open>The acceptance test \<open>bytes[0] == 0 && bytes[1] & 240 == 0\<close>.\<close>

fun pow_accept :: "bytes \<Rightarrow> bool" where
  "pow_accept (b0 # b1 # _) \<longleftrightarrow> b0 = 0 \<and> b1 AND 240 = 0"
| "pow_accept _ \<longleftrightarrow> False"

text \<open>
  \<open>Block::proof_of_work\<close>: the loop draws a nonce, signs the adjusted hash and stops
  at the first accepted signature. The draws are a tape; an exhausted tape is
  \<open>None\<close>, the loop still running.
\<close>

fun proof_of_work :: "(bytes \<Rightarrow> bytes) \<Rightarrow> bytes \<Rightarrow> bytes list \<Rightarrow> (bytes \<times> bytes) option" where
  "proof_of_work sign h [] = None"
| "proof_of_work sign h (n # draws) =
     (let sig = sign (pow_adjusted h n)
      in if pow_accept sig then Some (n, sig) else proof_of_work sign h draws)"

section \<open>Constructors\<close>

text \<open>\<open>Block::new\<close>: the timestamp is the clock reading; the block is a ballots block
  over the hash of \<open>prev\<close>. The source's \<open>Result\<close> is always \<open>Ok\<close>.\<close>

definition block_new ::
  "'h hasher \<Rightarrow> sig_scheme \<Rightarrow> signing_key \<Rightarrow> nat \<Rightarrow> 'h block \<Rightarrow> signed_ballot list \<Rightarrow> bytes list
   \<Rightarrow> 'h block option" where
  "block_new H S sk now prev bs draws =
     (let ph = block_hash H prev
      in case proof_of_work (sch_sign S sk) (hash_bytes H ph) draws of
           None \<Rightarrow> None
         | Some (n, sig) \<Rightarrow>
             Some \<lparr>block_timestamp = now, previous_hash = ph, signatory = verifying_key sk,
                   block_signature = sig, block_content = Ballots bs, nonce = n\<rparr>)"

text \<open>\<open>Block::seal\<close>: the same over a \<open>Seal\<close> with the empty string.\<close>

definition block_seal ::
  "'h hasher \<Rightarrow> sig_scheme \<Rightarrow> signing_key \<Rightarrow> nat \<Rightarrow> 'h block \<Rightarrow> bytes list \<Rightarrow> 'h block option" where
  "block_seal H S sk now prev draws =
     (let ph = block_hash H prev
      in case proof_of_work (sch_sign S sk) (hash_bytes H ph) draws of
           None \<Rightarrow> None
         | Some (n, sig) \<Rightarrow>
             Some \<lparr>block_timestamp = now, previous_hash = ph, signatory = verifying_key sk,
                   block_signature = sig, block_content = Seal [], nonce = n\<rparr>)"

text \<open>\<open>Block::genesis\<close>: timestamp 0, the zero hash, mined by the key read from
  \<open>./temp/identities/default.der\<close> (an input here).\<close>

definition block_genesis :: "'h hasher \<Rightarrow> sig_scheme \<Rightarrow> signing_key \<Rightarrow> bytes list \<Rightarrow> 'h block option" where
  "block_genesis H S sk draws =
     (case proof_of_work (sch_sign S sk) (hash_bytes H (zero_hash H)) draws of
        None \<Rightarrow> None
      | Some (n, sig) \<Rightarrow>
          Some \<lparr>block_timestamp = 0, previous_hash = zero_hash H, signatory = verifying_key sk,
                block_signature = sig, block_content = Genesis [], nonce = n\<rparr>)"

section \<open>A collision-free hash for scenarios\<close>

text \<open>
  A symbolic digest: the hash of a block is the term built from what \<open>Block::hash\<close>
  feeds BLAKE3, so two blocks hash alike exactly when their timestamps, previous
  hashes and ballots agree. It instantiates the hasher interface in the scenarios
  of the specification and shows the collision-resistance hypotheses satisfiable.
\<close>

datatype sym_hash = ZeroHash | Digest nat sym_hash "signed_ballot list"

definition sym_hasher :: "sym_hash hasher" where
  "sym_hasher = \<lparr>digest = Digest, hash_bytes = (\<lambda>_. replicate 32 0), zero_hash = ZeroHash\<rparr>"

text \<open>Scenario data: a block with an empty signature and nonce, and a ballot under the
  toy modulus 7 with an empty signature.\<close>

definition test_block :: "nat \<Rightarrow> sym_hash \<Rightarrow> block_data \<Rightarrow> sym_hash block" where
  "test_block t ph d =
     \<lparr>block_timestamp = t, previous_hash = ph, signatory = 0, block_signature = [],
      block_content = d, nonce = []\<rparr>"

definition test_vote :: "vkey \<Rightarrow> bool \<Rightarrow> int \<Rightarrow> signed_ballot" where
  "test_vote k v t = \<lparr>signature = [], signer = k, data = ballot_new \<lparr>ek_n = 7\<rparr> v [] t 0 0\<rparr>"

lemma sym_hasher_binds_prev:
  "\<forall>t p xs t' p' xs'. digest sym_hasher t p xs = digest sym_hasher t' p' xs' \<longrightarrow> p = p'"
  by (simp add: sym_hasher_def)

section \<open>The acceptance test on bytes\<close>

lemma and_240_take_bit: "(b::8 word) AND 240 = 0 \<longleftrightarrow> take_bit 4 b = b"
proof -
  have "(b AND 240 = 0) \<longleftrightarrow> (\<forall>i. \<not> (bit b i \<and> bit (240::8 word) i))"
    by (auto simp: bit_eq_iff bit_and_iff)
  also have "\<dots> \<longleftrightarrow> (\<forall>i. 4 \<le> i \<longrightarrow> \<not> bit b i)"
  proof -
    have b240: "bit (240::8 word) i \<longleftrightarrow> 4 \<le> i \<and> i < 8" for i
      by (cases "i < 8") (auto simp: less_Suc_eq numeral_eq_Suc)
    show ?thesis
      using b240 bit_imp_le_length [of b] by (auto simp: not_le)
  qed
  also have "\<dots> \<longleftrightarrow> take_bit 4 b = b"
  proof
    assume "\<forall>i. 4 \<le> i \<longrightarrow> \<not> bit b i"
    then show "take_bit 4 b = b"
      by (metis bit_take_bit_iff bit_word_eqI not_le)
  next
    assume "take_bit 4 b = b"
    then show "\<forall>i. 4 \<le> i \<longrightarrow> \<not> bit b i"
      by (metis bit_take_bit_iff not_le)
  qed
  finally show ?thesis .
qed

lemma take_bit_4_eq_self: "take_bit 4 (b::8 word) = b \<longleftrightarrow> unat b < 16"
proof -
  have "take_bit 4 b = b \<longleftrightarrow> unat (take_bit 4 b) = unat b"
    by (metis word_unat_eq_iff)
  also have "unat (take_bit 4 b) = unat b mod 16"
    by (simp add: take_bit_eq_mod unat_mod)
  finally show ?thesis by (metis mod_less mod_less_divisor zero_less_numeral)
qed

lemma and_240_eq_0: "(b::8 word) AND 240 = 0 \<longleftrightarrow> unat b < 16"
  by (simp add: and_240_take_bit take_bit_4_eq_self)

text \<open>
  C13. The proof-of-work test accepts a signature exactly when its first twelve bits
  are zero: the big-endian value of its first two bytes is below 16. (The comment
  above \<open>proof_of_work\<close> speaks of four bits.)
\<close>

theorem pow_accept_twelve_bits:
  "pow_accept (b0 # b1 # rest) \<longleftrightarrow> unat b0 * 256 + unat b1 < 16"
proof -
  have "unat b0 = 0 \<longleftrightarrow> b0 = 0" by (simp add: unat_eq_zero)
  then show ?thesis by (auto simp: and_240_eq_0)
qed

text \<open>A signature whose first four bits are zero but whose next eight are not is
  rejected.\<close>

lemma pow_accept_four_bits_not_enough: "\<not> pow_accept [15, 0]"
  by simp

section \<open>The proof-of-work search\<close>

lemma proof_of_work_Some:
  "proof_of_work sign h draws = Some (n, sig) \<Longrightarrow>
   n \<in> set draws \<and> sig = sign (pow_adjusted h n) \<and> pow_accept sig"
  by (induction draws) (auto simp: Let_def split: if_splits)

text \<open>
  C14. The search returns exactly when the tape of random nonces holds a nonce whose
  adjusted hash the key signs into an accepted signature; it then returns the first
  such nonce with that signature.
\<close>

theorem proof_of_work_returns:
  "(\<exists>r. proof_of_work sign h draws = Some r) \<longleftrightarrow>
   (\<exists>n \<in> set draws. pow_accept (sign (pow_adjusted h n)))"
  by (induction draws) (auto simp: Let_def)

lemma proof_of_work_first:
  "(\<forall>x \<in> set xs. \<not> pow_accept (sign (pow_adjusted h x))) \<Longrightarrow>
   pow_accept (sign (pow_adjusted h n)) \<Longrightarrow>
   proof_of_work sign h (xs @ n # ys) = Some (n, sign (pow_adjusted h n))"
  by (induction xs) (auto simp: Let_def)

section \<open>Mined blocks\<close>

text \<open>
  C12. A block mined by \<open>Block::new\<close> on top of \<open>prev\<close> is valid on top of it, carries
  exactly the given ballots and the miner's key, and its signature is an accepted
  signature of the adjusted hash of \<open>prev\<close>.
\<close>

theorem block_new_valid:
  assumes "block_new H S sk now prev bs draws = Some b"
  shows "is_valid H b prev \<and> get_ballots b = Some bs \<and> signatory b = verifying_key sk \<and>
         block_timestamp b = now \<and> nonce b \<in> set draws \<and> pow_accept (block_signature b) \<and>
         block_signature b = sch_sign S sk (pow_adjusted (hash_bytes H (block_hash H prev)) (nonce b))"
  using assms proof_of_work_Some [of "sch_sign S sk" "hash_bytes H (block_hash H prev)" draws]
  by (auto simp: block_new_def is_valid_def Let_def split: option.splits)

text \<open>
  C19. The block hash binds only the timestamp, the previous hash and the ballots: it
  does not change with the signatory, the signature or the nonce, and a genesis
  block, a seal and an empty ballot batch with the same timestamp and predecessor
  have the same hash.
\<close>

theorem block_hash_unbound_fields:
  "block_hash H (b\<lparr>signatory := k, block_signature := sig, nonce := n\<rparr>) = block_hash H b \<and>
   block_hash H (b\<lparr>block_content := Genesis g\<rparr>) = block_hash H (b\<lparr>block_content := Ballots []\<rparr>) \<and>
   block_hash H (b\<lparr>block_content := Seal t\<rparr>) = block_hash H (b\<lparr>block_content := Ballots []\<rparr>)"
  by (simp add: block_hash_def)

section \<open>Witnesses\<close>

text \<open>A tape whose second nonce is accepted by a toy signer that returns the
  adjusted hash itself.\<close>

theorem block_new_valid_witness:
  "block_new \<lparr>digest = (\<lambda>t p bs. p), hash_bytes = (\<lambda>h. h), zero_hash = replicate 32 0\<rparr>
     \<lparr>sch_sign = (\<lambda>sk m. m), sch_verify = (\<lambda>vk m s. True)\<rparr> (SigningKey 1) 5
     \<lparr>block_timestamp = 0, previous_hash = replicate 32 (0::8 word), signatory = 1,
      block_signature = [], block_content = Genesis [], nonce = []\<rparr> []
     [replicate 8 1, replicate 8 0]
   = Some \<lparr>block_timestamp = 5, previous_hash = replicate 32 0, signatory = 1,
           block_signature = replicate 32 0, block_content = Ballots [], nonce = replicate 8 0\<rparr> \<and>
   is_valid \<lparr>digest = (\<lambda>t p bs. p), hash_bytes = (\<lambda>h. h), zero_hash = replicate 32 0\<rparr>
     \<lparr>block_timestamp = 5, previous_hash = replicate 32 0, signatory = 1,
      block_signature = replicate 32 0, block_content = Ballots [], nonce = replicate 8 0\<rparr>
     \<lparr>block_timestamp = 0, previous_hash = replicate 32 (0::8 word), signatory = 1,
      block_signature = [], block_content = Genesis [], nonce = []\<rparr>"
proof -
  let ?H = "\<lparr>digest = (\<lambda>t p bs. p), hash_bytes = (\<lambda>h. h), zero_hash = replicate 32 (0::8 word)\<rparr>"
  let ?S = "\<lparr>sch_sign = (\<lambda>sk m. m), sch_verify = (\<lambda>vk m s. True)\<rparr>"
  let ?g = "\<lparr>block_timestamp = 0, previous_hash = replicate 32 (0::8 word), signatory = 1,
            block_signature = [], block_content = Genesis [], nonce = []\<rparr>"
  let ?b = "\<lparr>block_timestamp = 5, previous_hash = replicate 32 (0::8 word), signatory = 1,
            block_signature = replicate 32 0, block_content = Ballots [], nonce = replicate 8 0\<rparr>"
  have eq: "block_new ?H ?S (SigningKey 1) 5 ?g [] [replicate 8 1, replicate 8 0] = Some ?b"
    by (simp add: block_new_def block_hash_def pow_adjusted_def numeral_eq_Suc Let_def)
  show ?thesis
    using eq block_new_valid [OF eq] by simp
qed

end
