(* ===== verification/Chain.thy ===== *)
theory Chain
  imports Block
begin

text \<open>
  The chain store of \<open>src/node/src/votechain/chain.rs\<close> and its error type
  (\<open>errors.rs\<close>). The LMDB table \<open>index \<rightarrow> block\<close> is an association list with
  distinct keys (a \<open>heed\<close> write transaction that commits is one function from
  the old list to the new one); the in-memory hash index is a map; the pool is a
  list. Storage failures (\<open>Error::Heed\<close>, \<open>Error::Io\<close>) are constructors of the
  error type that the model never produces: the store is assumed to work. A Rust
  panic (indexing an empty vector, \<open>unwrap\<close> on an error) is the value \<open>None\<close>: the
  call does not return. The abstraction \<open>chain_of\<close> reads the store as the list of
  blocks from index 1 to the height; the lemmas show that \<open>append\<close> and
  \<open>try_update_longest\<close> refine list operations on it, that they keep the chain
  invariant, what becomes of the ballot pool, and where the code departs from the
  specification.
\<close>

section \<open>Data\<close>

text \<open>\<open>enum Error\<close>.\<close>

datatype error = Heed | Io | BlockNotFound nat | InvalidNewBlock

text \<open>\<open>const BLOCK_SIZE\<close>.\<close>

definition block_size :: nat where
  "block_size = 2"

text \<open>\<open>struct Blockchain\<close>; the configuration and the LMDB environment handle are not
  modelled, \<open>metadata.height\<close> is the field \<open>height\<close>.\<close>

record 'h blockchain =
  chain_db :: "(nat, 'h block) hashmap"
  hash_indexes :: "'h \<rightharpoonup> nat"
  height :: nat
  ballot_pool :: "signed_ballot list"
  signing_key :: signing_key

section \<open>Opening the store\<close>

text \<open>
  \<open>Blockchain::new\<close>: \<open>stored\<close> is the table's content in key order. An empty table
  receives the genesis block at index 1; otherwise the hash index is rebuilt from
  every entry and the height is the number of entries.
\<close>

definition chain_new ::
  "'h hasher \<Rightarrow> 'h block \<Rightarrow> (nat, 'h block) hashmap \<Rightarrow> signing_key \<Rightarrow> 'h blockchain" where
  "chain_new H genesis stored sk =
     (if stored = [] then
        \<lparr>chain_db = [(1, genesis)], hash_indexes = [block_hash H genesis \<mapsto> 1], height = 1,
         ballot_pool = [], signing_key = sk\<rparr>
      else
        \<lparr>chain_db = stored,
         hash_indexes = fold (\<lambda>(i, b) m. m(block_hash H b \<mapsto> i)) stored Map.empty,
         height = length stored, ballot_pool = [], signing_key = sk\<rparr>)"

section \<open>Reading\<close>

text \<open>\<open>Blockchain::get_block\<close>.\<close>

definition get_block :: "'h blockchain \<Rightarrow> nat \<Rightarrow> error + 'h block" where
  "get_block s i = (case map_of (chain_db s) i of Some b \<Rightarrow> Inr b | None \<Rightarrow> Inl (BlockNotFound i))"

text \<open>\<open>Blockchain::try_get_block\<close>: \<open>get_block\<close> with the error dropped.\<close>

definition try_get_block :: "'h blockchain \<Rightarrow> nat \<Rightarrow> 'h block option" where
  "try_get_block s i = (case get_block s i of Inr b \<Rightarrow> Some b | Inl _ \<Rightarrow> None)"

text \<open>\<open>Blockchain::get_height\<close>.\<close>

definition get_height :: "'h blockchain \<Rightarrow> nat" where
  "get_height s = height s"

text \<open>\<open>Blockchain::get_block_from_hash\<close>: an unknown hash reports index 0.\<close>

definition get_block_from_hash :: "'h blockchain \<Rightarrow> 'h \<Rightarrow> error + 'h block" where
  "get_block_from_hash s h =
     (case hash_indexes s h of Some i \<Rightarrow> get_block s i | None \<Rightarrow> Inl (BlockNotFound 0))"

text \<open>\<open>Blockchain::get_hash_at\<close>.\<close>

definition get_hash_at :: "'h hasher \<Rightarrow> 'h blockchain \<Rightarrow> nat \<Rightarrow> error + 'h" where
  "get_hash_at H s i = (case get_block s i of Inl e \<Rightarrow> Inl e | Inr b \<Rightarrow> Inr (block_hash H b))"

text \<open>The loop of \<open>Blockchain::blocks_from\<close>: read each index, stop at the first
  missing one.\<close>

fun collect_blocks :: "(nat, 'h block) hashmap \<Rightarrow> nat list \<Rightarrow> error + 'h block list" where
  "collect_blocks db [] = Inr []"
| "collect_blocks db (i # is) =
     (case map_of db i of
        None \<Rightarrow> Inl (BlockNotFound i)
      | Some b \<Rightarrow> (case collect_blocks db is of Inl e \<Rightarrow> Inl e | Inr bs \<Rightarrow> Inr (b # bs)))"

text \<open>\<open>Blockchain::blocks_from\<close>: indices \<open>start..height+1\<close>.\<close>

definition blocks_from :: "'h blockchain \<Rightarrow> nat \<Rightarrow> error + 'h block list" where
  "blocks_from s start = collect_blocks (chain_db s) [start..<Suc (height s)]"

text \<open>\<open>Blockchain::blocks\<close>: indices \<open>1..height\<close>, each read unwrapped (a missing
  block panics).\<close>

definition blocks :: "'h blockchain \<Rightarrow> 'h block list option" where
  "blocks s = those (map (\<lambda>i. map_of (chain_db s) i) [1..<height s])"

text \<open>\<open>struct BlockchainIter\<close> and \<open>Blockchain::iter\<close>: a cursor over the store,
  starting at index 1.\<close>

record 'h blockchain_iter =
  curr_index :: nat
  iter_chain :: "'h blockchain"

definition chain_iter :: "'h blockchain \<Rightarrow> 'h blockchain_iter" where
  "chain_iter s = \<lparr>curr_index = 1, iter_chain = s\<rparr>"

text \<open>\<open>Iterator::next\<close> for \<open>BlockchainIter\<close>: advance the cursor, then read the
  block there.\<close>

definition iter_next :: "'h blockchain_iter \<Rightarrow> 'h block option \<times> 'h blockchain_iter" where
  "iter_next it =
     (let it' = it\<lparr>curr_index := Suc (curr_index it)\<rparr>
      in (try_get_block (iter_chain it') (curr_index it'), it'))"

text \<open>The sequence the iterator yields, up to its first \<open>None\<close> (what \<open>collect\<close>
  or a \<open>for\<close> loop over it sees). It ends because the table has finitely many
  keys.\<close>

function iter_collect :: "'h blockchain_iter \<Rightarrow> 'h block list" where
  "iter_collect it =
     (case iter_next it of
        (None, _) \<Rightarrow> []
      | (Some b, it') \<Rightarrow> b # iter_collect it')"
  by pat_completeness auto
termination
  by (relation "measure (\<lambda>it. Suc (Max (insert 0 (fst ` set (chain_db (iter_chain it))))) - curr_index it)")
     (auto simp: iter_next_def try_get_block_def get_block_def Let_def split: option.splits sum.splits
           dest!: map_of_Some_le_Max)

declare iter_collect.simps [simp del]

text \<open>\<open>Display for Blockchain\<close>: the height and the hash of the head block, read
  with an \<open>unwrap\<close> (\<open>None\<close>: the panic).\<close>

definition chain_display :: "'h hasher \<Rightarrow> 'h blockchain \<Rightarrow> (nat \<times> 'h) option" where
  "chain_display H s = (case get_block s (height s) of Inr b \<Rightarrow> Some (height s, block_hash H b) | Inl _ \<Rightarrow> None)"

text \<open>\<open>is_valid_chain\<close>: every adjacent pair links.\<close>

fun is_valid_chain :: "'h hasher \<Rightarrow> 'h block list \<Rightarrow> bool" where
  "is_valid_chain H (b1 # b2 # bs) \<longleftrightarrow> block_hash H b1 = previous_hash b2 \<and> is_valid_chain H (b2 # bs)"
| "is_valid_chain H _ \<longleftrightarrow> True"

section \<open>Writing\<close>

text \<open>\<open>Blockchain::append\<close>: read the head, check the link, write at \<open>height + 1\<close>.
  The hash index is not updated.\<close>

definition append :: "'h hasher \<Rightarrow> 'h blockchain \<Rightarrow> 'h block \<Rightarrow> error + 'h blockchain" where
  "append H s b =
     (case get_block s (height s) of
        Inl e \<Rightarrow> Inl e
      | Inr head \<Rightarrow>
          if \<not> is_valid H b head then Inl InvalidNewBlock
          else Inr (s\<lparr>chain_db := AList.update (height s + 1) b (chain_db s), height := height s + 1\<rparr>))"

text \<open>The ballots a block carries back to the pool: \<open>if let Some(ballots) = block.get_ballots()\<close>.\<close>

definition ballots_of :: "'h block \<Rightarrow> signed_ballot list" where
  "ballots_of b = (case get_ballots b of Some bs \<Rightarrow> bs | None \<Rightarrow> [])"

text \<open>The stripping loop of \<open>try_update_longest\<close>: every index of the range that holds
  a block is deleted and its ballots are pushed onto the pool.\<close>

fun strip :: "(nat, 'h block) hashmap \<Rightarrow> signed_ballot list \<Rightarrow> nat list
              \<Rightarrow> (nat, 'h block) hashmap \<times> signed_ballot list" where
  "strip db pool [] = (db, pool)"
| "strip db pool (i # is) =
     (case map_of db i of
        None \<Rightarrow> strip db pool is
      | Some b \<Rightarrow> strip (AList.delete i db) (pool @ ballots_of b) is)"

text \<open>The re-append loop: block \<open>k\<close> of the new suffix is written at \<open>fork_index + k\<close>.\<close>

fun put_blocks :: "(nat, 'h block) hashmap \<Rightarrow> nat \<Rightarrow> 'h block list \<Rightarrow> (nat, 'h block) hashmap" where
  "put_blocks db i [] = db"
| "put_blocks db i (b # bs) = put_blocks (AList.update i b db) (Suc i) bs"

text \<open>
  \<open>Blockchain::try_update_longest\<close>. \<open>blocks[0]\<close> is evaluated first and panics on an
  empty vector (\<open>None\<close>); the fork block must exist and hash like the first new
  block, and the new blocks must link. The strip range is \<open>fork_index..height\<close>,
  which excludes the head. The result is the index after the last written block.
\<close>

definition try_update_longest ::
  "'h hasher \<Rightarrow> 'h blockchain \<Rightarrow> nat \<Rightarrow> 'h block list \<Rightarrow> (error + nat \<times> 'h blockchain) option" where
  "try_update_longest H s fork bs =
     (case bs of
        [] \<Rightarrow> None
      | b0 # _ \<Rightarrow> Some
          (case get_block s fork of
             Inl e \<Rightarrow> Inl e
           | Inr fb \<Rightarrow>
               if block_hash H b0 \<noteq> block_hash H fb \<or> \<not> is_valid_chain H bs then Inl InvalidNewBlock
               else
                 (let (db1, pool1) = strip (chain_db s) (ballot_pool s) [fork..<height s];
                      db2 = put_blocks db1 fork bs
                  in Inr (fork + length bs,
                          s\<lparr>chain_db := db2, ballot_pool := pool1, height := fork + length bs - 1\<rparr>))))"

text \<open>
  \<open>Blockchain::pool_ballot\<close>: push the ballot; once the pool holds \<open>BLOCK_SIZE\<close>
  ballots, split off the last \<open>BLOCK_SIZE\<close>, mine a block on the head with the
  chain's key and append it, ignoring the result of \<open>append\<close>. The pool is split
  before the head is read, so a failed read loses the split ballots. The clock
  reading and the nonce tape are inputs; \<open>None\<close> is a proof of work still running.
\<close>

definition pool_ballot ::
  "'h hasher \<Rightarrow> sig_scheme \<Rightarrow> 'h blockchain \<Rightarrow> nat \<Rightarrow> bytes list \<Rightarrow> signed_ballot
   \<Rightarrow> ('h blockchain \<times> (error + unit)) option" where
  "pool_ballot H S s now draws b =
     (let pool = ballot_pool s @ [b]
      in if block_size \<le> length pool then
           (let s1 = s\<lparr>ballot_pool := take (length pool - block_size) pool\<rparr>;
                bb = drop (length pool - block_size) pool
            in case get_block s1 (height s1) of
                 Inl e \<Rightarrow> Some (s1, Inl e)
               | Inr prev \<Rightarrow>
                   (case block_new H S (signing_key s1) now prev bb draws of
                      None \<Rightarrow> None
                    | Some blk \<Rightarrow>
                        Some (case append H s1 blk of Inl _ \<Rightarrow> s1 | Inr s2 \<Rightarrow> s2, Inr ())))
         else Some (s\<lparr>ballot_pool := pool\<rparr>, Inr ()))"

section \<open>Abstraction and invariant\<close>

text \<open>The chain the store holds: the blocks at indices \<open>1..=height\<close>.\<close>

definition chain_of :: "'h blockchain \<Rightarrow> 'h block list" where
  "chain_of s = map (\<lambda>i. the (map_of (chain_db s) i)) [1..<Suc (height s)]"

text \<open>
  The invariant of the specification: the indices are exactly \<open>1..=height\<close>, each
  once, and consecutive blocks link.
\<close>

definition chain_inv :: "'h hasher \<Rightarrow> 'h blockchain \<Rightarrow> bool" where
  "chain_inv H s \<longleftrightarrow> 1 \<le> height s \<and> distinct (map fst (chain_db s)) \<and>
     set (map fst (chain_db s)) = {1..height s} \<and> is_valid_chain H (chain_of s)"

text \<open>The ballots the chain holds.\<close>

definition chain_ballots :: "'h blockchain \<Rightarrow> signed_ballot list" where
  "chain_ballots s = concat (map ballots_of (chain_of s))"

section \<open>Scenario data\<close>

text \<open>
  The reorganisation scenario S5 of the specification, under the symbolic hash: the
  node holds \<open>G, B1\<close>, where \<open>B1\<close> carries the ballots \<open>X\<close> and \<open>Y\<close>, and \<open>Z\<close> is in the
  pool; the peer streams \<open>G, B1', B2'\<close> from index 1. The store is opened by
  \<open>chain_new\<close> on the table \<open>G, B1\<close>. A signature scheme whose signature is the
  message itself mines on the all-zero nonce.
\<close>

definition s5_genesis :: "sym_hash block" where
  "s5_genesis = test_block 0 ZeroHash (Genesis [])"

definition s5_b1 :: "sym_hash block" where
  "s5_b1 = test_block 1 (block_hash sym_hasher s5_genesis) (Ballots [test_vote 1 True 1, test_vote 2 False 1])"

definition s5_b1' :: "sym_hash block" where
  "s5_b1' = test_block 2 (block_hash sym_hasher s5_genesis) (Ballots [test_vote 4 True 2])"

definition s5_b2' :: "sym_hash block" where
  "s5_b2' = test_block 3 (block_hash sym_hasher s5_b1') (Ballots [])"

definition s5_store :: "sym_hash blockchain" where
  "s5_store = (chain_new sym_hasher s5_genesis [(1, s5_genesis), (2, s5_b1)] (SigningKey 0))
                \<lparr>ballot_pool := [test_vote 3 True 1]\<rparr>"

section \<open>Lemmas on the store\<close>

lemma is_valid_chain_Cons:
  "is_valid_chain H (b # bs) \<longleftrightarrow> (bs \<noteq> [] \<longrightarrow> block_hash H b = previous_hash (hd bs)) \<and> is_valid_chain H bs"
  by (cases bs) auto

lemma is_valid_chain_append:
  "is_valid_chain H (xs @ ys) \<longleftrightarrow> is_valid_chain H xs \<and> is_valid_chain H ys \<and>
     (xs \<noteq> [] \<longrightarrow> ys \<noteq> [] \<longrightarrow> block_hash H (last xs) = previous_hash (hd ys))"
  by (induction xs) (auto simp: is_valid_chain_Cons)

lemma is_valid_chain_nth:
  "is_valid_chain H c \<Longrightarrow> Suc i < length c \<Longrightarrow> block_hash H (c ! i) = previous_hash (c ! Suc i)"
proof (induction c arbitrary: i)
  case Nil
  then show ?case by simp
next
  case (Cons b c)
  then show ?case
    by (cases i) (auto simp: is_valid_chain_Cons hd_conv_nth)
qed

lemma is_valid_chain_take:
  "is_valid_chain H c \<Longrightarrow> is_valid_chain H (take k c)"
  by (metis append_take_drop_id is_valid_chain_append)

lemma length_chain_of [simp]: "length (chain_of s) = height s"
  by (simp add: chain_of_def)

lemma nth_chain_of:
  "i < height s \<Longrightarrow> chain_of s ! i = the (map_of (chain_db s) (Suc i))"
  by (simp add: chain_of_def nth_map_upt del: upt_Suc)

lemma map_of_chain_db:
  assumes "chain_inv H s"
  shows "map_of (chain_db s) i = (if 1 \<le> i \<and> i \<le> height s then Some (chain_of s ! (i - 1)) else None)"
proof -
  have keys: "fst ` set (chain_db s) = {1..height s}"
    using assms by (simp add: chain_inv_def)
  show ?thesis
  proof (cases "1 \<le> i \<and> i \<le> height s")
    case True
    then have "i \<in> fst ` set (chain_db s)" using keys by simp
    then obtain b where "map_of (chain_db s) i = Some b"
      by (metis map_of_eq_None_iff not_None_eq)
    moreover have "chain_of s ! (i - 1) = the (map_of (chain_db s) i)"
    proof -
      have "i - 1 < height s" and "Suc (i - 1) = i" using True by arith+
      then show ?thesis using nth_chain_of [of "i - 1" s] by simp
    qed
    ultimately show ?thesis using True by simp
  next
    case False
    then have "i \<notin> fst ` set (chain_db s)" using keys by auto
    then have "map_of (chain_db s) i = None" by (simp add: map_of_eq_None_iff)
    with False show ?thesis by (simp only: if_False)
  qed
qed

lemma chain_of_eqI:
  assumes "height s = length xs"
    and "\<And>i. 1 \<le> i \<Longrightarrow> i \<le> length xs \<Longrightarrow> map_of (chain_db s) i = Some (xs ! (i - 1))"
  shows "chain_of s = xs"
proof (rule nth_equalityI)
  show "length (chain_of s) = length xs" using assms(1) by simp
next
  fix i assume "i < length (chain_of s)"
  then have "i < length xs" using assms(1) by simp
  then show "chain_of s ! i = xs ! i"
    using assms by (simp add: nth_chain_of)
qed

lemma get_block_head:
  assumes "chain_inv H s"
  shows "get_block s (height s) = Inr (last (chain_of s))"
proof -
  have h: "1 \<le> height s" using assms by (simp add: chain_inv_def)
  then have "chain_of s \<noteq> []" by (metis length_chain_of list.size(3) not_one_le_zero)
  then have "last (chain_of s) = chain_of s ! (height s - 1)"
    by (simp add: last_conv_nth)
  with h show ?thesis by (simp add: get_block_def map_of_chain_db [OF assms])
qed

lemma chain_new_inv: "chain_inv H (chain_new H g [] sk)"
  by (simp add: chain_inv_def chain_new_def chain_of_def)

lemma append_eq:
  assumes inv: "chain_inv H s"
  shows "append H s b =
           (if is_valid H b (last (chain_of s))
            then Inr (s\<lparr>chain_db := AList.update (height s + 1) b (chain_db s), height := height s + 1\<rparr>)
            else Inl InvalidNewBlock)"
  using get_block_head [OF inv] by (simp add: append_def)

lemma append_Inr:
  assumes inv: "chain_inv H s" and ok: "append H s b = Inr s'"
  shows "chain_inv H s' \<and> chain_of s' = chain_of s @ [b]"
proof -
  have valid: "is_valid H b (last (chain_of s))"
    and s': "s' = s\<lparr>chain_db := AList.update (height s + 1) b (chain_db s), height := height s + 1\<rparr>"
    using ok by (auto simp: append_eq [OF inv] split: if_splits)
  have h: "1 \<le> height s" using inv by (simp add: chain_inv_def)
  have c: "chain_of s' = chain_of s @ [b]"
  proof (rule chain_of_eqI)
    show "height s' = length (chain_of s @ [b])" by (simp add: s')
  next
    fix i assume "1 \<le> i" "i \<le> length (chain_of s @ [b])"
    then show "map_of (chain_db s') i = Some ((chain_of s @ [b]) ! (i - 1))"
      using map_of_chain_db [OF inv, of i]
      by (auto simp: s' update_conv' nth_append)
  qed
  have "is_valid_chain H (chain_of s @ [b])"
    using inv valid h by (auto simp: chain_inv_def is_valid_chain_append is_valid_def)
  moreover have "distinct (map fst (chain_db s'))"
    using inv by (simp add: s' chain_inv_def distinct_update)
  moreover have "set (map fst (chain_db s')) = {1..height s'}"
    using inv by (auto simp: s' chain_inv_def dom_update)
  ultimately show ?thesis
    using c h by (simp add: chain_inv_def s')
qed

lemma strip_db:
  "map_of (fst (strip db pool is)) = (\<lambda>i. if i \<in> set is then None else map_of db i)"
  by (induction db pool "is" rule: strip.induct)
     (auto simp: delete_conv' fun_eq_iff split: option.splits)

lemma strip_keys:
  "distinct (map fst db) \<Longrightarrow>
   distinct (map fst (fst (strip db pool is))) \<and>
   set (map fst (fst (strip db pool is))) = set (map fst db) - set is"
proof (induction db pool "is" rule: strip.induct)
  case (1 db pool)
  then show ?case by simp
next
  case (2 db pool i "is")
  show ?case
  proof (cases "map_of db i")
    case None
    then have "i \<notin> set (map fst db)" by (simp add: map_of_eq_None_iff)
    with None 2 show ?thesis by auto
  next
    case (Some b)
    have "distinct (map fst (AList.delete i db))"
      using "2.prems" by (simp add: distinct_delete)
    moreover have "set (map fst (AList.delete i db)) = set (map fst db) - {i}"
      by (simp add: delete_keys)
    ultimately show ?thesis
      using Some "2.IH"(2) [OF Some] by auto
  qed
qed

lemma strip_pool:
  "distinct is \<Longrightarrow>
   snd (strip db pool is) = pool @ concat (map (\<lambda>i. case map_of db i of Some b \<Rightarrow> ballots_of b | None \<Rightarrow> []) is)"
proof (induction db pool "is" rule: strip.induct)
  case (1 db pool)
  then show ?case by simp
next
  case (2 db pool i "is")
  have same: "map (\<lambda>j. case map_of (AList.delete i db) j of Some b \<Rightarrow> ballots_of b | None \<Rightarrow> []) is
            = map (\<lambda>j. case map_of db j of Some b \<Rightarrow> ballots_of b | None \<Rightarrow> []) is"
    using "2.prems" by (auto simp: delete_conv')
  show ?case
    using 2 same by (auto split: option.splits)
qed

lemma put_blocks_db:
  "map_of (put_blocks db i bs) j =
     (if i \<le> j \<and> j < i + length bs then Some (bs ! (j - i)) else map_of db j)"
proof (induction db i bs rule: put_blocks.induct)
  case (1 db i)
  then show ?case by auto
next
  case (2 db i b bs)
  then show ?case
    by (auto simp: update_conv' nth_Cons' Suc_diff_Suc not_less_eq_eq)
qed

lemma put_blocks_keys:
  "distinct (map fst db) \<Longrightarrow>
   distinct (map fst (put_blocks db i bs)) \<and>
   set (map fst (put_blocks db i bs)) = set (map fst db) \<union> {i..<i + length bs}"
  by (induction db i bs rule: put_blocks.induct) (auto simp: distinct_update dom_update)

lemma try_update_longest_Inr:
  assumes inv: "chain_inv H s"
    and ok: "try_update_longest H s fork bs = Some (Inr (k, s'))"
  obtains b0 rest db1 pool1 where
    "bs = b0 # rest" "1 \<le> fork" "fork \<le> height s"
    "block_hash H b0 = block_hash H (chain_of s ! (fork - 1))" "is_valid_chain H bs"
    "strip (chain_db s) (ballot_pool s) [fork..<height s] = (db1, pool1)"
    "s' = s\<lparr>chain_db := put_blocks db1 fork bs, ballot_pool := pool1, height := fork + length bs - 1\<rparr>"
    "k = fork + length bs"
proof -
  obtain b0 rest where bs: "bs = b0 # rest"
    using ok by (cases bs) (auto simp: try_update_longest_def)
  obtain fb where fb: "get_block s fork = Inr fb"
    using ok by (cases "get_block s fork") (auto simp: try_update_longest_def bs)
  have range: "1 \<le> fork \<and> fork \<le> height s" and fbn: "fb = chain_of s ! (fork - 1)"
    using fb map_of_chain_db [OF inv, of fork]
    by (auto simp: get_block_def split: if_splits)
  obtain db1 pool1 where st: "strip (chain_db s) (ballot_pool s) [fork..<height s] = (db1, pool1)"
    by (cases "strip (chain_db s) (ballot_pool s) [fork..<height s]")
  have checks: "block_hash H b0 = block_hash H fb" "is_valid_chain H bs"
    and res: "s' = s\<lparr>chain_db := put_blocks db1 fork bs, ballot_pool := pool1, height := fork + length bs - 1\<rparr>"
       "k = fork + length bs"
    using ok by (auto simp: try_update_longest_def bs fb st split: if_splits)
  show ?thesis
    using that bs range checks res st fbn by blast
qed

lemma try_update_longest_chain_of:
  assumes inv: "chain_inv H s"
    and ok: "try_update_longest H s fork bs = Some (Inr (k, s'))"
  shows "chain_of s' = take (fork - 1) (chain_of s) @ bs"
proof -
  obtain b0 rest db1 pool1 where
    bs: "bs = b0 # rest" and range: "1 \<le> fork" "fork \<le> height s"
    and st: "strip (chain_db s) (ballot_pool s) [fork..<height s] = (db1, pool1)"
    and s': "s' = s\<lparr>chain_db := put_blocks db1 fork bs, ballot_pool := pool1, height := fork + length bs - 1\<rparr>"
    using try_update_longest_Inr [OF inv ok] by metis
  let ?c = "chain_of s"
  have ne: "bs \<noteq> []" using bs by simp
  have db1: "map_of db1 = (\<lambda>i. if i \<in> set [fork..<height s] then None else map_of (chain_db s) i)"
    using strip_db [of "chain_db s" "ballot_pool s" "[fork..<height s]"] st by simp
  show ?thesis
  proof (rule chain_of_eqI)
    show "height s' = length (take (fork - 1) ?c @ bs)"
      using range bs by (simp add: s')
  next
    fix i assume i: "1 \<le> i" "i \<le> length (take (fork - 1) ?c @ bs)"
    show "map_of (chain_db s') i = Some ((take (fork - 1) ?c @ bs) ! (i - 1))"
    proof (cases "i < fork")
      case True
      then show ?thesis
        using i range map_of_chain_db [OF inv, of i]
        by (simp add: s' put_blocks_db db1 nth_append)
    next
      case False
      have "i - 1 - (fork - 1) = i - fork" "fork \<le> i" "i < fork + length bs"
        using False i range ne by auto
      then show ?thesis
        using range by (simp add: s' put_blocks_db nth_append min_def)
    qed
  qed
qed

text \<open>
  C1. Appending refines adding a block at the end of the chain: on a store that
  satisfies the chain invariant, \<open>Blockchain::append\<close> fails with
  \<open>InvalidNewBlock\<close> exactly when the block does not link to the head; otherwise the
  new store keeps the invariant, its chain is the old chain followed by the block,
  and the pool is unchanged.
\<close>

theorem append_refines:
  assumes inv: "chain_inv H s"
  shows "(case append H s b of
            Inl e \<Rightarrow> e = InvalidNewBlock \<and> \<not> is_valid H b (last (chain_of s))
          | Inr s' \<Rightarrow> is_valid H b (last (chain_of s)) \<and> chain_inv H s' \<and>
                     chain_of s' = chain_of s @ [b] \<and> ballot_pool s' = ballot_pool s)"
proof (cases "append H s b")
  case (Inl e)
  then show ?thesis
    using append_eq [OF inv, of b] by (simp split: if_splits)
next
  case (Inr s')
  then show ?thesis
    using append_eq [OF inv, of b] append_Inr [OF inv Inr] by (auto split: if_splits)
qed

text \<open>A reorganisation that does not shorten the chain keeps the chain invariant,
  when the digest binds the previous hash.\<close>

lemma try_update_longest_inv:
  assumes inv: "chain_inv H s"
    and binds: "\<forall>t p xs t' p' xs'. digest H t p xs = digest H t' p' xs' \<longrightarrow> p = p'"
    and ok: "try_update_longest H s fork bs = Some (Inr (k, s'))"
    and longer: "height s \<le> height s'"
  shows "chain_inv H s'"
proof -
  obtain b0 rest db1 pool1 where
    bs: "bs = b0 # rest" and range: "1 \<le> fork" "fork \<le> height s"
    and hb: "block_hash H b0 = block_hash H (chain_of s ! (fork - 1))"
    and vbs: "is_valid_chain H bs"
    and st: "strip (chain_db s) (ballot_pool s) [fork..<height s] = (db1, pool1)"
    and s': "s' = s\<lparr>chain_db := put_blocks db1 fork bs, ballot_pool := pool1, height := fork + length bs - 1\<rparr>"
    using try_update_longest_Inr [OF inv ok] by metis
  let ?c = "chain_of s"
  have dist: "distinct (map fst (chain_db s))" and keys: "set (map fst (chain_db s)) = {1..height s}"
    and vc: "is_valid_chain H ?c"
    using inv by (simp_all add: chain_inv_def)
  have k1: "distinct (map fst db1)" "set (map fst db1) = {1..height s} - set [fork..<height s]"
    using strip_keys [OF dist, of "ballot_pool s" "[fork..<height s]"] st keys by simp_all
  have k2: "distinct (map fst (chain_db s'))"
    "set (map fst (chain_db s')) = ({1..height s} - {fork..<height s}) \<union> {fork..<fork + length bs}"
    using put_blocks_keys [OF k1(1), of fork bs] k1(2) by (simp_all add: s')
  have hs': "height s' = fork + length bs - 1" by (simp add: s')
  have keys': "set (map fst (chain_db s')) = {1..height s'}"
    using k2(2) longer range bs hs' by auto
  have junction: "block_hash H (last (take (fork - 1) ?c)) = previous_hash b0" if "1 < fork"
  proof -
    have "last (take (fork - 1) ?c) = ?c ! (fork - 1 - 1)"
      using that range by (simp add: last_take_nth)
    then have "last (take (fork - 1) ?c) = ?c ! (fork - 2)"
      by (simp add: numeral_2_eq_2)
    moreover have "block_hash H (?c ! (fork - 2)) = previous_hash (?c ! (fork - 1))"
      using is_valid_chain_nth [OF vc, of "fork - 2"] that range by (simp add: numeral_2_eq_2 Suc_diff_Suc)
    moreover have "previous_hash b0 = previous_hash (?c ! (fork - 1))"
      using hb binds by (simp add: block_hash_def) blast
    ultimately show ?thesis by simp
  qed
  have "is_valid_chain H (take (fork - 1) ?c @ bs)"
    using is_valid_chain_take [OF vc] vbs junction bs range
    by (auto simp: is_valid_chain_append)
  then have "is_valid_chain H (chain_of s')"
    using try_update_longest_chain_of [OF inv ok] by simp
  then show ?thesis
    using k2(1) keys' longer inv by (simp add: chain_inv_def)
qed

text \<open>
  C3. What a successful reorganisation does to the chain and to the pool: the new
  chain is the old chain up to the block before the fork index followed by the
  streamed blocks, and the ballots returned to the pool are those of the old blocks
  from the fork index up to, but excluding, the head. The ballots of the old head
  are dropped, and those of the fork block, which the new chain replaces by an
  equal-hash block, are returned although they may be on the chain again.
\<close>

theorem try_update_longest_refines:
  assumes inv: "chain_inv H s"
    and ok: "try_update_longest H s fork bs = Some (Inr (k, s'))"
  shows "chain_of s' = take (fork - 1) (chain_of s) @ bs \<and>
         ballot_pool s' = ballot_pool s @ concat (map ballots_of (drop (fork - 1) (take (height s - 1) (chain_of s))))"
proof -
  obtain b0 rest db1 pool1 where
    range: "1 \<le> fork" "fork \<le> height s"
    and st: "strip (chain_db s) (ballot_pool s) [fork..<height s] = (db1, pool1)"
    and s': "s' = s\<lparr>chain_db := put_blocks db1 fork bs, ballot_pool := pool1, height := fork + length bs - 1\<rparr>"
    using try_update_longest_Inr [OF inv ok] by metis
  let ?c = "chain_of s"
  let ?f = "\<lambda>i. case map_of (chain_db s) i of Some b \<Rightarrow> ballots_of b | None \<Rightarrow> []"
  have "pool1 = ballot_pool s @ concat (map ?f [fork..<height s])"
    using strip_pool [of "[fork..<height s]" "chain_db s" "ballot_pool s"] st by simp
  also have "map ?f [fork..<height s] = map ballots_of (drop (fork - 1) (take (height s - 1) ?c))"
  proof (rule nth_equalityI)
    fix j assume "j < length (map ?f [fork..<height s])"
    then have j: "j < height s - fork" by simp
    have "fork + j \<le> height s" "fork - 1 + j < height s - 1" "fork + j - 1 = fork - 1 + j"
      using j range by arith+
    then show "map ?f [fork..<height s] ! j = map ballots_of (drop (fork - 1) (take (height s - 1) ?c)) ! j"
      using range j map_of_chain_db [OF inv, of "fork + j"] by simp
  qed (use range in simp)
  finally show ?thesis
    using try_update_longest_chain_of [OF inv ok] by (simp add: s')
qed

text \<open>
  C20. Re-streaming the head onto itself is a no-op on the store: a reorganisation at
  the height with the head block as the only new block succeeds and returns the
  store unchanged, with \<open>height + 1\<close> as the next index.
\<close>

theorem try_update_longest_head_noop:
  assumes inv: "chain_inv H s"
  shows "try_update_longest H s (height s) [last (chain_of s)] = Some (Inr (Suc (height s), s))"
proof -
  have head: "get_block s (height s) = Inr (last (chain_of s))"
    by (rule get_block_head [OF inv])
  then have "map_of (chain_db s) (height s) = Some (last (chain_of s))"
    by (simp add: get_block_def split: option.splits)
  then have "AList.update (height s) (last (chain_of s)) (chain_db s) = chain_db s"
    by (rule update_triv)
  then show ?thesis
    using head by (simp add: try_update_longest_def)
qed

lemma chain_inv_pool [simp]: "chain_inv H (s\<lparr>ballot_pool := p\<rparr>) = chain_inv H s"
  by (simp add: chain_inv_def chain_of_def)

lemma chain_ballots_pool [simp]: "chain_ballots (s\<lparr>ballot_pool := p\<rparr>) = chain_ballots s"
  by (simp add: chain_ballots_def chain_of_def)

lemma ballots_of_block_new:
  "block_new H S sk now prev bs draws = Some blk \<Longrightarrow> ballots_of blk = bs"
  using block_new_valid [of H S sk now prev bs draws blk] by (simp add: ballots_of_def)

text \<open>What \<open>pool_ballot\<close> does on a store that satisfies the invariant: it always
  reports success; below the block size it only pushes the ballot, and otherwise it
  mines a block of the last \<open>BLOCK_SIZE\<close> ballots on the head and appends it to the
  store with the rest of the pool.\<close>

lemma pool_ballot_Some:
  assumes inv: "chain_inv H s" and ok: "pool_ballot H S s now draws b = Some (s', r)"
  shows "r = Inr () \<and>
    (if block_size \<le> length (ballot_pool s @ [b])
     then \<exists>blk. block_new H S (signing_key s) now (last (chain_of s))
                  (drop (length (ballot_pool s @ [b]) - block_size) (ballot_pool s @ [b])) draws = Some blk \<and>
                append H (s\<lparr>ballot_pool := take (length (ballot_pool s @ [b]) - block_size) (ballot_pool s @ [b])\<rparr>) blk
                  = Inr s'
     else s' = s\<lparr>ballot_pool := ballot_pool s @ [b]\<rparr>)"
proof (cases "block_size \<le> length (ballot_pool s @ [b])")
  case False
  then show ?thesis
    using ok by (auto simp: pool_ballot_def Let_def)
next
  case True
  define pool where "pool = ballot_pool s @ [b]"
  define s1 where "s1 = s\<lparr>ballot_pool := take (length pool - block_size) pool\<rparr>"
  define bb where "bb = drop (length pool - block_size) pool"
  have inv1: "chain_inv H s1" using inv by (simp add: s1_def)
  have head: "get_block s1 (height s1) = Inr (last (chain_of s1))"
    by (rule get_block_head [OF inv1])
  have T: "block_size \<le> length pool" using True by (simp add: pool_def)
  have unfold: "pool_ballot H S s now draws b =
      (case block_new H S (signing_key s1) now (last (chain_of s1)) bb draws of
         None \<Rightarrow> None
       | Some blk \<Rightarrow> Some (case append H s1 blk of Inl _ \<Rightarrow> s1 | Inr s2 \<Rightarrow> s2, Inr ()))"
    unfolding pool_ballot_def Let_def pool_def [symmetric] s1_def [symmetric] bb_def [symmetric]
    by (simp only: if_P [OF T] head sum.case)
  obtain blk where blk: "block_new H S (signing_key s1) now (last (chain_of s1)) bb draws = Some blk"
    using ok unfold by (auto split: option.splits)
  have "is_valid H blk (last (chain_of s1))"
    using block_new_valid [OF blk] by simp
  then have app: "append H s1 blk = Inr (s1\<lparr>chain_db := AList.update (height s1 + 1) blk (chain_db s1),
                                              height := height s1 + 1\<rparr>)"
    unfolding append_eq [OF inv1] by (rule if_P)
  have "s' = s1\<lparr>chain_db := AList.update (height s1 + 1) blk (chain_db s1), height := height s1 + 1\<rparr>"
    and r: "r = Inr ()"
    using ok unfold blk app by simp_all
  with app blk have "block_new H S (signing_key s) now (last (chain_of s)) bb draws = Some blk \<and> append H s1 blk = Inr s'"
    by (simp add: s1_def chain_of_def)
  then show ?thesis
    using True r by (auto simp: pool_def [symmetric] s1_def [symmetric] bb_def [symmetric])
qed

lemma pool_ballot_inv:
  assumes inv: "chain_inv H s" and ok: "pool_ballot H S s now draws b = Some (s', r)"
  shows "chain_inv H s'"
proof (cases "block_size \<le> length (ballot_pool s @ [b])")
  case False
  then show ?thesis
    using pool_ballot_Some [OF inv ok] inv by simp
next
  case True
  define s1 where "s1 = s\<lparr>ballot_pool := take (length (ballot_pool s @ [b]) - block_size) (ballot_pool s @ [b])\<rparr>"
  obtain blk where "append H s1 blk = Inr s'"
    using pool_ballot_Some [OF inv ok] True unfolding s1_def [symmetric] by auto
  moreover have "chain_inv H s1" using inv by (simp add: s1_def)
  ultimately show ?thesis
    using append_Inr by blast
qed

text \<open>The multiset of the pool and the chain's ballots gains exactly the pooled
  ballot.\<close>

lemma pool_ballot_mset:
  assumes inv: "chain_inv H s" and ok: "pool_ballot H S s now draws b = Some (s', r)"
  shows "mset (ballot_pool s') + mset (chain_ballots s') = mset (ballot_pool s) + mset (chain_ballots s) + {#b#}"
proof (cases "block_size \<le> length (ballot_pool s @ [b])")
  case False
  then show ?thesis
    using pool_ballot_Some [OF inv ok] by simp
next
  case True
  define pool where "pool = ballot_pool s @ [b]"
  define s1 where "s1 = s\<lparr>ballot_pool := take (length pool - block_size) pool\<rparr>"
  define bb where "bb = drop (length pool - block_size) pool"
  obtain blk where blk: "block_new H S (signing_key s) now (last (chain_of s)) bb draws = Some blk"
    and app: "append H s1 blk = Inr s'" and r: "r = Inr ()"
    using pool_ballot_Some [OF inv ok] True by (auto simp: pool_def s1_def bb_def)
  have inv1: "chain_inv H s1" using inv by (simp add: s1_def)
  have "chain_of s' = chain_of s1 @ [blk]" and pool': "ballot_pool s' = ballot_pool s1"
    using append_Inr [OF inv1 app] append_eq [OF inv1, of blk] app by (auto split: if_splits)
  then have "chain_ballots s' = chain_ballots s @ bb"
    using ballots_of_block_new [OF blk] by (simp add: chain_ballots_def s1_def chain_of_def)
  then have "mset (ballot_pool s') + mset (chain_ballots s')
             = (mset (take (length pool - block_size) pool) + mset bb) + mset (chain_ballots s)"
    using pool' by (simp add: s1_def ac_simps)
  also have "mset (take (length pool - block_size) pool) + mset bb = mset pool"
    by (simp add: bb_def flip: mset_append)
  also have "mset pool + mset (chain_ballots s) = mset (ballot_pool s) + mset (chain_ballots s) + {#b#}"
    by (simp add: pool_def)
  finally show ?thesis .
qed

text \<open>
  C4. Pooling a ballot loses no ballot and keeps the chain invariant: after
  \<open>Blockchain::pool_ballot\<close> returns on a store that satisfies the invariant, the
  store satisfies it, the call reports success, and the multiset of the pool and
  the chain's ballots together is the old one plus the new ballot.
\<close>

theorem pool_ballot_conserves:
  assumes inv: "chain_inv H s" and ok: "pool_ballot H S s now draws b = Some (s', r)"
  shows "chain_inv H s' \<and> r = Inr () \<and>
         mset (ballot_pool s') + mset (chain_ballots s') = mset (ballot_pool s) + mset (chain_ballots s) + {#b#}"
  using pool_ballot_inv [OF inv ok] pool_ballot_Some [OF inv ok] pool_ballot_mset [OF inv ok] by blast

lemma blocks_lookups:
  assumes inv: "chain_inv H s"
  shows "map (\<lambda>i. map_of (chain_db s) i) [1..<height s] = map Some (butlast (chain_of s))"
proof (rule nth_equalityI)
  fix i assume "i < length (map (\<lambda>i. map_of (chain_db s) i) [1..<height s])"
  then have i: "i < height s - 1" by simp
  then show "map (\<lambda>i. map_of (chain_db s) i) [1..<height s] ! i = map Some (butlast (chain_of s)) ! i"
    using map_of_chain_db [OF inv, of "Suc i"] by (simp add: nth_butlast)
qed simp

lemma iter_collect_drop:
  assumes inv: "chain_inv H s"
  shows "iter_collect \<lparr>curr_index = i, iter_chain = s\<rparr> = drop i (chain_of s)"
proof (induction "height s - i" arbitrary: i)
  case 0
  then have "map_of (chain_db s) (Suc i) = None" using map_of_chain_db [OF inv, of "Suc i"] by simp
  then show ?case using 0
    by (simp add: iter_collect.simps iter_next_def try_get_block_def get_block_def)
next
  case (Suc n)
  then have i: "i < height s" by simp
  then have "map_of (chain_db s) (Suc i) = Some (chain_of s ! i)" using map_of_chain_db [OF inv, of "Suc i"] by simp
  moreover have "iter_collect \<lparr>curr_index = Suc i, iter_chain = s\<rparr> = drop (Suc i) (chain_of s)"
    using Suc by simp
  ultimately show ?case using i
    by (simp add: iter_collect.simps iter_next_def try_get_block_def get_block_def Cons_nth_drop_Suc)
qed

text \<open>
  C33. \<open>Blockchain::iter\<close> never yields the genesis block: its cursor starts at 1
  and \<open>next\<close> advances it before reading, so on a valid store the iterator yields
  the blocks at indices \<open>2..=height\<close>, the chain without its first block.
\<close>

theorem iter_skips_genesis:
  assumes inv: "chain_inv H s"
  shows "iter_collect (chain_iter s) = tl (chain_of s)"
  using iter_collect_drop [OF inv, of 1] by (simp add: chain_iter_def drop_Suc)

text \<open>
  C15. \<open>Blockchain::blocks\<close>, which the tally reads, returns every block of the chain
  but the head: on a store that satisfies the invariant it never panics and yields
  the chain without its last block.
\<close>

theorem blocks_omit_head:
  assumes inv: "chain_inv H s"
  shows "blocks s = Some (butlast (chain_of s))"
  using blocks_lookups [OF inv] by (simp add: blocks_def)

text \<open>
  C21. \<open>append\<close> does not record the new block in the hash index: the index is
  unchanged, so a block appended with a fresh hash is not found by
  \<open>get_block_from_hash\<close>, which reports index 0.
\<close>

theorem append_keeps_hash_index:
  "append H s b = Inr s' \<Longrightarrow> hash_indexes s' = hash_indexes s \<and>
     (hash_indexes s (block_hash H b) = None \<longrightarrow>
        get_block_from_hash s' (block_hash H b) = Inl (BlockNotFound 0))"
  by (auto simp: append_def get_block_from_hash_def split: sum.splits if_splits)


section \<open>Witnesses\<close>

lemma s5_store_inv: "chain_inv sym_hasher s5_store"
  by (auto simp: chain_inv_def chain_of_def s5_store_def chain_new_def s5_b1_def s5_genesis_def
                 block_hash_def sym_hasher_def test_block_def is_valid_def)

lemma s5_chain: "chain_of s5_store = [s5_genesis, s5_b1]"
  by (simp add: chain_of_def s5_store_def chain_new_def upt_rec)

text \<open>Appending a block on \<open>B1\<close> succeeds; appending \<open>B1'\<close>, which links to the
  genesis block, is rejected.\<close>

theorem append_refines_witness:
  "chain_inv sym_hasher s5_store \<and>
   (\<exists>s'. append sym_hasher s5_store (test_block 2 (block_hash sym_hasher s5_b1) (Ballots [])) = Inr s' \<and>
         chain_of s' = [s5_genesis, s5_b1, test_block 2 (block_hash sym_hasher s5_b1) (Ballots [])]) \<and>
   append sym_hasher s5_store s5_b1' = Inl InvalidNewBlock"
proof -
  have ok: "is_valid sym_hasher (test_block 2 (block_hash sym_hasher s5_b1) (Ballots [])) (last (chain_of s5_store))"
    by (simp add: s5_chain is_valid_def test_block_def)
  have bad: "\<not> is_valid sym_hasher s5_b1' (last (chain_of s5_store))"
    by (simp add: s5_chain is_valid_def s5_b1'_def s5_b1_def s5_genesis_def test_block_def
                  block_hash_def sym_hasher_def)
  show ?thesis
    using append_refines [OF s5_store_inv, of "test_block 2 (block_hash sym_hasher s5_b1) (Ballots [])"]
          append_refines [OF s5_store_inv, of s5_b1'] ok bad s5_store_inv
    by (auto simp: s5_chain split: sum.splits)
qed


lemma s5_reorg:
  "\<exists>s1. try_update_longest sym_hasher s5_store 1 [s5_genesis, s5_b1', s5_b2'] = Some (Inr (4, s1)) \<and>
        height s1 = 3"
  by (simp add: try_update_longest_def s5_store_def chain_new_def get_block_def s5_b1'_def s5_b2'_def
                s5_b1_def s5_genesis_def block_hash_def sym_hasher_def test_block_def ballots_of_def upt_rec)

text \<open>The S5 reorganisation: the chain becomes \<open>G, B1', B2'\<close>, but the pool holds
  only \<open>Z\<close>: the ballots \<open>X\<close> and \<open>Y\<close> of the old head \<open>B1\<close>, which are on neither
  new block, are lost.\<close>

theorem try_update_longest_refines_witness:
  "\<exists>s1. chain_inv sym_hasher s5_store \<and>
        try_update_longest sym_hasher s5_store 1 [s5_genesis, s5_b1', s5_b2'] = Some (Inr (4, s1)) \<and>
        chain_of s1 = [s5_genesis, s5_b1', s5_b2'] \<and> ballot_pool s1 = [test_vote 3 True 1] \<and>
        ballots_of s5_b1 = [test_vote 1 True 1, test_vote 2 False 1]"
proof -
  obtain s1 where r: "try_update_longest sym_hasher s5_store 1 [s5_genesis, s5_b1', s5_b2'] = Some (Inr (4, s1))"
    using s5_reorg by blast
  have b1: "ballots_of s5_b1 = [test_vote 1 True 1, test_vote 2 False 1]"
    by (simp add: ballots_of_def s5_b1_def test_block_def)
  have h: "height s5_store = 2" and p: "ballot_pool s5_store = [test_vote 3 True 1]"
    by (simp_all add: s5_store_def chain_new_def)
  have g: "ballots_of s5_genesis = []"
    by (simp add: ballots_of_def s5_genesis_def test_block_def)
  have "chain_of s1 = take 0 (chain_of s5_store) @ [s5_genesis, s5_b1', s5_b2'] \<and>
        ballot_pool s1 = ballot_pool s5_store @ concat (map ballots_of (drop 0 (take 1 (chain_of s5_store))))"
    using try_update_longest_refines [OF s5_store_inv r] h by simp
  then have "chain_of s1 = [s5_genesis, s5_b1', s5_b2'] \<and> ballot_pool s1 = [test_vote 3 True 1]"
    by (simp add: s5_chain p g)
  then show ?thesis
    using s5_store_inv r b1 by blast
qed


text \<open>Re-streaming \<open>B1\<close> at index 2 leaves the S5 store as it is.\<close>

theorem try_update_longest_head_noop_witness:
  "chain_inv sym_hasher s5_store \<and>
   try_update_longest sym_hasher s5_store 2 [s5_b1] = Some (Inr (3, s5_store))"
proof -
  have "try_update_longest sym_hasher s5_store (height s5_store) [last (chain_of s5_store)]
          = Some (Inr (Suc (height s5_store), s5_store))"
    by (rule try_update_longest_head_noop [OF s5_store_inv])
  moreover have "height s5_store = 2" by (simp add: s5_store_def chain_new_def)
  ultimately show ?thesis
    using s5_store_inv by (simp add: s5_chain)
qed

text \<open>Pooling a ballot \<open>W\<close> next to \<open>Z\<close> fills a block of two, which is mined with the
  zero nonce and appended.\<close>

lemma s5_pool:
  "\<exists>s'. pool_ballot sym_hasher echo_scheme s5_store 7 [replicate 8 0] (test_vote 5 True 3) = Some (s', Inr ()) \<and>
        ballot_pool s' = [] \<and> height s' = 3"
  by (simp add: pool_ballot_def block_size_def s5_store_def chain_new_def get_block_def block_new_def
                echo_scheme_def pow_adjusted_def sym_hasher_def numeral_eq_Suc append_def is_valid_def Let_def)

theorem pool_ballot_conserves_witness:
  "\<exists>s'. chain_inv sym_hasher s5_store \<and>
        pool_ballot sym_hasher echo_scheme s5_store 7 [replicate 8 0] (test_vote 5 True 3) = Some (s', Inr ()) \<and>
        chain_inv sym_hasher s' \<and> ballot_pool s' = [] \<and>
        mset (chain_ballots s') = mset (chain_ballots s5_store) + {#test_vote 3 True 1, test_vote 5 True 3#}"
proof -
  obtain s' where r: "pool_ballot sym_hasher echo_scheme s5_store 7 [replicate 8 0] (test_vote 5 True 3) = Some (s', Inr ())"
    and p: "ballot_pool s' = []"
    using s5_pool by blast
  have "chain_inv sym_hasher s' \<and> Inr () = (Inr () :: error + unit) \<and>
        mset (ballot_pool s') + mset (chain_ballots s') = mset (ballot_pool s5_store) + mset (chain_ballots s5_store) + {#test_vote 5 True 3#}"
    by (rule pool_ballot_conserves [OF s5_store_inv r])
  moreover have "ballot_pool s5_store = [test_vote 3 True 1]" by (simp add: s5_store_def chain_new_def)
  ultimately show ?thesis
    using s5_store_inv r p by (auto simp: add_mset_commute)
qed

text \<open>The tally reads only \<open>G\<close> of the S5 store: \<open>B1\<close>, the head, is left out.\<close>

theorem blocks_omit_head_witness:
  "chain_inv sym_hasher s5_store \<and> blocks s5_store = Some [s5_genesis] \<and> last (chain_of s5_store) = s5_b1"
  using blocks_omit_head [OF s5_store_inv] s5_store_inv by (simp add: s5_chain)

text \<open>A block appended on \<open>B1\<close> is not found by its hash.\<close>

theorem append_keeps_hash_index_witness:
  "\<exists>s'. append sym_hasher s5_store (test_block 2 (block_hash sym_hasher s5_b1) (Ballots [])) = Inr s' \<and>
        hash_indexes s5_store (block_hash sym_hasher (test_block 2 (block_hash sym_hasher s5_b1) (Ballots []))) = None \<and>
        get_block_from_hash s' (block_hash sym_hasher (test_block 2 (block_hash sym_hasher s5_b1) (Ballots [])))
          = Inl (BlockNotFound 0)"
proof -
  let ?b = "test_block 2 (block_hash sym_hasher s5_b1) (Ballots [])"
  obtain s' where r: "append sym_hasher s5_store ?b = Inr s'"
    by (simp add: append_def get_block_def s5_store_def chain_new_def is_valid_def test_block_def)
  have fresh: "hash_indexes s5_store (block_hash sym_hasher ?b) = None"
    by (simp add: s5_store_def chain_new_def s5_b1_def s5_genesis_def test_block_def block_hash_def sym_hasher_def)
  show ?thesis
    using append_keeps_hash_index [OF r] r fresh by blast
qed

text \<open>On the store \<open>G, B1\<close> the iterator yields only \<open>B1\<close>.\<close>

theorem iter_skips_genesis_witness:
  "chain_inv sym_hasher s5_store \<and> iter_collect (chain_iter s5_store) = [s5_b1]"
  using iter_skips_genesis [OF s5_store_inv] s5_chain s5_store_inv by simp

end
