(* ===== verification/Tally.thy ===== *)
theory Tally
  imports Delegations Chain
begin

text \<open>
  The tally of \<open>src/node/src/trustee/resolve.rs\<close> (\<open>generate_vote_result\<close>): read
  the chain through \<open>Blockchain::blocks\<close>, keep the latest ballot of each signer and
  the set of signers, weight each kept ballot by the signer's delegated power,
  add all ballots homomorphically and compare the two decrypted totals. The
  HashMap of kept ballots is an association list with distinct keys, the voter
  set a list without duplicates (\<open>List.insert\<close>). The lemmas show that the latest
  ballot wins, that the homomorphic sum decrypts to the sum of the plaintexts, and
  that the result is the weighted majority of the kept ballots when every ballot
  on the chain is well formed and the total weight stays below the modulus.
\<close>

section \<open>Collecting the latest ballots\<close>

text \<open>The \<open>entry(..).and_modify(..).or_insert(..)\<close> update of \<open>weighted_votes\<close>: a
  ballot replaces the kept one of its signer only when it is strictly newer.\<close>

definition latest_insert :: "signed_ballot \<Rightarrow> (vkey, ballot) hashmap \<Rightarrow> (vkey, ballot) hashmap" where
  "latest_insert sb wv =
     (case map_of wv (signer sb) of
        Some cur \<Rightarrow> if timestamp cur < timestamp (data sb) then AList.update (signer sb) (data sb) wv else wv
      | None \<Rightarrow> AList.update (signer sb) (data sb) wv)"

text \<open>One iteration of the inner loop: record the signer, then update the kept
  ballot.\<close>

definition collect_ballot ::
  "signed_ballot \<Rightarrow> (vkey, ballot) hashmap \<times> vkey list \<Rightarrow> (vkey, ballot) hashmap \<times> vkey list" where
  "collect_ballot sb acc = (case acc of (wv, vs) \<Rightarrow> (latest_insert sb wv, List.insert (signer sb) vs))"

text \<open>The two nested loops over the blocks and their ballots.\<close>

definition collect_votes :: "'h block list \<Rightarrow> (vkey, ballot) hashmap \<times> vkey list" where
  "collect_votes bs = fold (\<lambda>b acc. fold collect_ballot (ballots_of b) acc) bs ([], [])"

section \<open>Weighting and summing\<close>

text \<open>The weighting loop: every voter of the weight map has its kept ballot
  multiplied by its weight (\<open>and_modify\<close> leaves absent keys alone).\<close>

definition apply_weights ::
  "encryption_key \<Rightarrow> (vkey \<rightharpoonup> nat) \<Rightarrow> vkey list \<Rightarrow> (vkey, ballot) hashmap \<Rightarrow> (vkey, ballot) hashmap" where
  "apply_weights ek wm vs wv =
     fold (\<lambda>v wv. case wm v of
                    None \<Rightarrow> wv
                  | Some w \<Rightarrow> (case map_of wv v of
                                 None \<Rightarrow> wv
                               | Some b \<Rightarrow> AList.update v (ballot_weight ek w b) wv)) vs wv"

text \<open>The summing loop, from two fresh encryptions of 0.\<close>

definition tally_sum :: "encryption_key \<Rightarrow> ballot list \<Rightarrow> ciphertext \<times> ciphertext" where
  "tally_sum ek bs =
     fold (\<lambda>b acc. case acc of (rf, ra) \<Rightarrow> ballot_sum ek b rf ra) bs
       (paillier_encrypt ek 0 0, paillier_encrypt ek 0 0)"

text \<open>\<open>generate_vote_result\<close>; \<open>None\<close> is a panic of \<open>blocks()\<close>.\<close>

definition generate_vote_result ::
  "decryption_key \<Rightarrow> encryption_key \<Rightarrow> 'h blockchain \<Rightarrow> vkey delegation_graph \<Rightarrow> bool option" where
  "generate_vote_result dk ek chain g =
     (case blocks chain of
        None \<Rightarrow> None
      | Some bs \<Rightarrow>
          (let (wv, vs) = collect_votes bs;
               wm = generate_weights g vs;
               wv' = apply_weights ek wm vs wv;
               (rf, ra) = tally_sum ek (map snd wv')
           in Some (paillier_decrypt dk ra < paillier_decrypt dk rf)))"

section \<open>Specification\<close>

text \<open>The ballots the blocks carry, in chain order.\<close>

definition chain_votes :: "'h block list \<Rightarrow> signed_ballot list" where
  "chain_votes bs = concat (map ballots_of bs)"

text \<open>A ballot is well formed under a decryption key when its two counters decrypt
  to 0 or 1 and sum to 1, as \<open>Ballot::new\<close> makes them.\<close>

definition ballot_ok :: "decryption_key \<Rightarrow> ballot \<Rightarrow> bool" where
  "ballot_ok dk b \<longleftrightarrow>
     paillier_decrypt dk (vote_for b) \<in> {0, 1} \<and>
     paillier_decrypt dk (vote_for b) + paillier_decrypt dk (vote_against b) = 1"

text \<open>The state of the collecting loop after the ballots \<open>ys\<close>: distinct keys and
  voters, both the signers of \<open>ys\<close>, and each kept ballot is one of its signer's
  ballots with the greatest timestamp.\<close>

definition latest_state :: "signed_ballot list \<Rightarrow> (vkey, ballot) hashmap \<Rightarrow> vkey list \<Rightarrow> bool" where
  "latest_state ys wv vs \<longleftrightarrow>
     distinct (map fst wv) \<and> distinct vs \<and> set vs = signer ` set ys \<and> set (map fst wv) = signer ` set ys \<and>
     (\<forall>v b. map_of wv v = Some b \<longrightarrow>
        (\<exists>sb\<in>set ys. signer sb = v \<and> data sb = b \<and>
           (\<forall>sb'\<in>set ys. signer sb' = v \<longrightarrow> timestamp (data sb') \<le> timestamp b)))"

section \<open>Scenario data\<close>

text \<open>Scenario S2 of the specification: \<open>a, b, c\<close> (keys 1, 2, 3) delegate to \<open>d\<close>
  (key 4), and only \<open>d\<close> votes, yes. Its ballot is in block 2 of a three-block
  chain, so that \<open>blocks()\<close>, which omits the head, reads it.\<close>

definition s2_block1 :: "sym_hash block" where
  "s2_block1 = test_block 1 (block_hash sym_hasher s5_genesis) (Ballots [test_vote 4 True 1])"

definition s2_store :: "sym_hash blockchain" where
  "s2_store = chain_new sym_hasher s5_genesis
     [(1, s5_genesis), (2, s2_block1), (3, test_block 2 (block_hash sym_hasher s2_block1) (Ballots []))]
     (SigningKey 0)"

definition s2_graph :: "vkey delegation_graph" where
  "s2_graph = new_graph [(1, 4), (2, 4), (3, 4)]"

text \<open>A ballot whose \<open>vote_for\<close> encrypts 5 and whose \<open>vote_against\<close> encrypts 0; its
  range proofs are not checked by anyone.\<close>

definition forged_vote :: "vkey \<Rightarrow> signed_ballot" where
  "forged_vote k = \<lparr>signature = [], signer = k,
     data = (ballot_new \<lparr>ek_n = 7\<rparr> True [] 1 0 0)\<lparr>vote_for := Ciphertext 5, vote_against := Ciphertext 0\<rparr>\<rparr>"

text \<open>Three honest no votes (keys 1, 2, 3) and the forged ballot of key 4 in one block,
  without delegations.\<close>

definition forged_store :: "sym_hash blockchain" where
  "forged_store = chain_new sym_hasher s5_genesis
     [(1, s5_genesis),
      (2, test_block 1 (block_hash sym_hasher s5_genesis)
            (Ballots [test_vote 1 False 1, test_vote 2 False 1, test_vote 3 False 1, forged_vote 4])),
      (3, test_block 2 ZeroHash (Ballots []))]
     (SigningKey 0)"

text \<open>Signer 1 votes no at time 1 and yes at time 2 in one block.\<close>

definition latest_demo :: "sym_hash block list" where
  "latest_demo = [test_block 0 ZeroHash (Ballots [test_vote 1 False 1, test_vote 1 True 2])]"

section \<open>Lemmas\<close>

lemma collect_votes_fold: "collect_votes bs = fold collect_ballot (chain_votes bs) ([], [])"
  by (simp add: collect_votes_def chain_votes_def fold_fold_concat)

lemma latest_state_step:
  assumes st: "latest_state ys wv vs"
  shows "latest_state (ys @ [sb]) (latest_insert sb wv) (List.insert (signer sb) vs)"
proof -
  let ?k = "signer sb"
  have dk: "distinct (map fst wv)" and dv: "distinct vs" and sv: "set vs = signer ` set ys"
    and kw: "set (map fst wv) = signer ` set ys"
    and lat: "\<And>v b. map_of wv v = Some b \<Longrightarrow> \<exists>sb\<in>set ys. signer sb = v \<and> data sb = b \<and>
                (\<forall>sb'\<in>set ys. signer sb' = v \<longrightarrow> timestamp (data sb') \<le> timestamp b)"
    using st unfolding latest_state_def by blast+
  have vs': "distinct (List.insert ?k vs) \<and> set (List.insert ?k vs) = signer ` set (ys @ [sb])"
    using dv sv by auto
  have upd: "distinct (map fst (AList.update ?k (data sb) wv)) \<and>
             set (map fst (AList.update ?k (data sb) wv)) = signer ` set (ys @ [sb])"
    using dk kw by (auto simp: distinct_update dom_update)
  show ?thesis
  proof (cases "map_of wv ?k")
    case None
    then have "?k \<notin> fst ` set wv" by (simp add: map_of_eq_None_iff)
    then have "?k \<notin> signer ` set ys" using kw by simp
    then have fresh: "\<forall>sb'\<in>set ys. signer sb' \<noteq> ?k" by (auto simp: image_iff)
    have "\<exists>s\<in>set (ys @ [sb]). signer s = v \<and> data s = b \<and>
            (\<forall>sb'\<in>set (ys @ [sb]). signer sb' = v \<longrightarrow> timestamp (data sb') \<le> timestamp b)"
      if "map_of (AList.update ?k (data sb) wv) v = Some b" for v b
    proof (cases "v = ?k")
      case True
      then show ?thesis using that fresh by (auto simp: update_conv')
    next
      case False
      then show ?thesis using that lat [of v b] by (auto simp: update_conv')
    qed
    then show ?thesis
      using None vs' upd by (simp add: latest_state_def latest_insert_def)
  next
    case (Some cur)
    have in_keys: "?k \<in> signer ` set ys"
      using Some kw by (metis map_of_SomeD image_eqI fst_conv set_map)
    then have same: "signer ` set (ys @ [sb]) = signer ` set ys" by auto
    obtain c where c: "c \<in> set ys" "signer c = ?k" "data c = cur"
      and cmax: "\<forall>sb'\<in>set ys. signer sb' = ?k \<longrightarrow> timestamp (data sb') \<le> timestamp cur"
      using lat [OF Some] by blast
    show ?thesis
    proof (cases "timestamp cur < timestamp (data sb)")
      case True
      have "\<exists>s\<in>set (ys @ [sb]). signer s = v \<and> data s = b \<and>
              (\<forall>sb'\<in>set (ys @ [sb]). signer sb' = v \<longrightarrow> timestamp (data sb') \<le> timestamp b)"
        if "map_of (AList.update ?k (data sb) wv) v = Some b" for v b
      proof (cases "v = ?k")
        case True
        then show ?thesis using that cmax \<open>timestamp cur < timestamp (data sb)\<close>
          by (auto simp: update_conv')
      next
        case False
        then show ?thesis using that lat [of v b] by (auto simp: update_conv')
      qed
      then show ?thesis
        using Some True vs' upd by (simp add: latest_state_def latest_insert_def)
    next
      case False
      have "\<exists>s\<in>set (ys @ [sb]). signer s = v \<and> data s = b \<and>
              (\<forall>sb'\<in>set (ys @ [sb]). signer sb' = v \<longrightarrow> timestamp (data sb') \<le> timestamp b)"
        if "map_of wv v = Some b" for v b
      proof (cases "v = ?k")
        case True
        then have "b = cur" using that Some by simp
        then show ?thesis using True c cmax False by auto
      next
        case False
        then show ?thesis using that lat [of v b] by auto
      qed
      then show ?thesis
        using Some False vs' dk kw same by (simp add: latest_state_def latest_insert_def)
    qed
  qed
qed

lemma latest_state_fold:
  "latest_state ys wv vs \<Longrightarrow> fold collect_ballot xs (wv, vs) = (wv', vs') \<Longrightarrow> latest_state (ys @ xs) wv' vs'"
proof (induction xs arbitrary: ys wv vs)
  case Nil
  then show ?case by simp
next
  case (Cons x xs)
  have "latest_state (ys @ [x]) (latest_insert x wv) (List.insert (signer x) vs)"
    by (rule latest_state_step [OF Cons.prems(1)])
  then show ?case
    using Cons.IH [of "ys @ [x]"] Cons.prems(2) by (simp add: collect_ballot_def)
qed

lemma latest_state_collect_votes:
  "latest_state (chain_votes bs) (fst (collect_votes bs)) (snd (collect_votes bs))"
proof -
  obtain wv vs where c: "fold collect_ballot (chain_votes bs) ([], []) = (wv, vs)"
    by (cases "fold collect_ballot (chain_votes bs) ([], [])")
  have "latest_state ([] @ chain_votes bs) wv vs"
    by (rule latest_state_fold [OF _ c]) (simp add: latest_state_def)
  then show ?thesis by (simp add: collect_votes_fold c)
qed

text \<open>
  C7. Latest writer wins (property 9 of the specification): the tally keeps a
  ballot for exactly the signers of the ballots on the blocks it reads, and the
  ballot kept for a signer is one of that signer's ballots with the greatest
  timestamp, so an older ballot of a signer never counts when a newer one is on
  the chain.
\<close>

theorem collect_votes_latest:
  "(map_of (fst (collect_votes bs)) v = None \<longleftrightarrow> v \<notin> signer ` set (chain_votes bs)) \<and>
   (\<forall>b. map_of (fst (collect_votes bs)) v = Some b \<longrightarrow>
      (\<exists>sb\<in>set (chain_votes bs). signer sb = v \<and> data sb = b \<and>
         (\<forall>sb'\<in>set (chain_votes bs). signer sb' = v \<longrightarrow> timestamp (data sb') \<le> timestamp b)))"
  using latest_state_collect_votes [of bs]
  by (auto simp: latest_state_def map_of_eq_None_iff)

lemma decrypt_tally_fold:
  assumes "dk_n dk = ek_n ek"
  shows "paillier_decrypt dk (fst (fold (\<lambda>b acc. case acc of (rf, ra) \<Rightarrow> ballot_sum ek b rf ra) bs (cf, ca)))
           = (paillier_decrypt dk cf + (\<Sum>b\<leftarrow>bs. paillier_decrypt dk (vote_for b))) mod ek_n ek \<and>
         paillier_decrypt dk (snd (fold (\<lambda>b acc. case acc of (rf, ra) \<Rightarrow> ballot_sum ek b rf ra) bs (cf, ca)))
           = (paillier_decrypt dk ca + (\<Sum>b\<leftarrow>bs. paillier_decrypt dk (vote_against b))) mod ek_n ek"
  using assms
proof (induction bs arbitrary: cf ca)
  case Nil
  then show ?case by (cases cf; cases ca) simp
next
  case (Cons b bs)
  then show ?case
    by (simp add: ballot_sum_def decrypt_add mod_add_left_eq add.assoc)
qed

lemma decrypt_tally_sum:
  assumes "dk_n dk = ek_n ek"
  shows "paillier_decrypt dk (fst (tally_sum ek bs)) = (\<Sum>b\<leftarrow>bs. paillier_decrypt dk (vote_for b)) mod ek_n ek \<and>
         paillier_decrypt dk (snd (tally_sum ek bs)) = (\<Sum>b\<leftarrow>bs. paillier_decrypt dk (vote_against b)) mod ek_n ek"
  using decrypt_tally_fold [OF assms, of bs "paillier_encrypt ek 0 0" "paillier_encrypt ek 0 0"] assms
  by (simp add: tally_sum_def decrypt_encrypt)

lemma apply_weights_keys: "map fst (apply_weights ek wm vs wv) = map fst wv"
proof (induction vs arbitrary: wv)
  case Nil
  then show ?case by (simp add: apply_weights_def)
next
  case (Cons v vs)
  have "map fst (case wm v of None \<Rightarrow> wv | Some w \<Rightarrow> (case map_of wv v of None \<Rightarrow> wv
          | Some b \<Rightarrow> AList.update v (ballot_weight ek w b) wv)) = map fst wv"
  proof (cases "map_of wv v")
    case (Some b)
    then have "v \<in> set (map fst wv)" using map_of_SomeD [OF Some] by force
    then show ?thesis using Some by (simp add: update_keys split: option.splits)
  qed (simp split: option.splits)
  then show ?case
    using Cons.IH by (simp add: apply_weights_def)
qed

lemma apply_weights_map_of:
  "distinct vs \<Longrightarrow> map_of (apply_weights ek wm vs wv) v =
     (case map_of wv v of
        None \<Rightarrow> None
      | Some b \<Rightarrow> Some (if v \<in> set vs then (case wm v of None \<Rightarrow> b | Some w \<Rightarrow> ballot_weight ek w b) else b))"
proof (induction vs arbitrary: wv)
  case Nil
  then show ?case by (simp add: apply_weights_def split: option.splits)
next
  case (Cons u vs)
  let ?wv1 = "case wm u of None \<Rightarrow> wv | Some w \<Rightarrow> (case map_of wv u of None \<Rightarrow> wv
                | Some b \<Rightarrow> AList.update u (ballot_weight ek w b) wv)"
  have step: "apply_weights ek wm (u # vs) wv = apply_weights ek wm vs ?wv1"
    by (simp add: apply_weights_def)
  have m1: "map_of ?wv1 v = (if v = u then (case map_of wv v of None \<Rightarrow> None
              | Some b \<Rightarrow> Some (case wm v of None \<Rightarrow> b | Some w \<Rightarrow> ballot_weight ek w b)) else map_of wv v)"
    by (auto simp: update_conv' split: option.splits)
  show ?case
    using Cons.prems Cons.IH [of ?wv1] m1 unfolding step by (auto split: option.splits)
qed

lemma decrypt_weighted:
  assumes "dk_n dk = ek_n ek" and "paillier_decrypt dk c \<in> {0, 1}" and "int w < ek_n ek"
  shows "paillier_decrypt dk (paillier_mul ek c (int w)) = int w * paillier_decrypt dk c"
  using assms decrypt_mul [OF assms(1), of c "int w"] by auto

lemma ballot_ok_against: "ballot_ok dk b \<Longrightarrow> paillier_decrypt dk (vote_against b) \<in> {0, 1}"
  unfolding ballot_ok_def by auto

lemma sum_weighted_bounds:
  assumes "\<forall>v\<in>V. d v \<in> {0, 1::int}"
  shows "0 \<le> (\<Sum>v\<in>V. int (f v) * d v) \<and> (\<Sum>v\<in>V. int (f v) * d v) \<le> (\<Sum>v\<in>V. int (f v))"
proof
  show "0 \<le> (\<Sum>v\<in>V. int (f v) * d v)"
    using assms by (intro sum_nonneg) auto
  show "(\<Sum>v\<in>V. int (f v) * d v) \<le> (\<Sum>v\<in>V. int (f v))"
    using assms by (intro sum_mono) auto
qed

lemma weighted_counter:
  assumes keys: "dk_n dk = ek_n ek"
    and dk: "distinct (map fst wv')" and kw: "set (map fst wv') = V"
    and m': "\<And>v. v \<in> V \<Longrightarrow> map_of wv' v = Some (ballot_weight ek (w v) (L v))"
    and bit: "\<And>v. v \<in> V \<Longrightarrow> paillier_decrypt dk (sel (L v)) \<in> {0, 1}"
    and small: "(\<Sum>v\<in>V. int (w v)) < ek_n ek"
    and sel: "\<And>b n. sel (ballot_weight ek n b) = paillier_mul ek (sel b) (int n)"
  shows "(\<Sum>b\<leftarrow>map snd wv'. paillier_decrypt dk (sel b)) = (\<Sum>v\<in>V. int (w v) * paillier_decrypt dk (sel (L v))) \<and>
         0 \<le> (\<Sum>v\<in>V. int (w v) * paillier_decrypt dk (sel (L v))) \<and>
         (\<Sum>v\<in>V. int (w v) * paillier_decrypt dk (sel (L v))) < ek_n ek"
proof -
  have fin: "finite V" using kw by (metis List.finite_set)
  have wlt: "int (w v) < ek_n ek" if "v \<in> V" for v
  proof -
    have "int (w v) \<le> (\<Sum>u\<in>V. int (w u))"
      using that fin by (intro member_le_sum) auto
    then show ?thesis using small by simp
  qed
  have "(\<Sum>b\<leftarrow>map snd wv'. paillier_decrypt dk (sel b)) = (\<Sum>v\<in>V. paillier_decrypt dk (sel (the (map_of wv' v))))"
    using sum_list_map_snd [OF dk, of "\<lambda>b. paillier_decrypt dk (sel b)"] kw by (simp add: comp_def)
  also have "\<dots> = (\<Sum>v\<in>V. int (w v) * paillier_decrypt dk (sel (L v)))"
  proof (rule sum.cong [OF refl])
    fix v assume v: "v \<in> V"
    show "paillier_decrypt dk (sel (the (map_of wv' v))) = int (w v) * paillier_decrypt dk (sel (L v))"
      using m' [OF v] sel decrypt_weighted [OF keys bit [OF v] wlt [OF v]] by simp
  qed
  finally have eq: "(\<Sum>b\<leftarrow>map snd wv'. paillier_decrypt dk (sel b)) = (\<Sum>v\<in>V. int (w v) * paillier_decrypt dk (sel (L v)))" .
  have "\<forall>v\<in>V. paillier_decrypt dk (sel (L v)) \<in> {0, 1}" using bit by blast
  from sum_weighted_bounds [OF this, of w] eq small show ?thesis by linarith
qed

lemma latest_state_weighted:
  assumes st: "latest_state ys wv vs" and wf: "\<forall>sb\<in>set ys. ballot_ok dk (data sb)"
  shows "distinct (map fst (apply_weights ek (generate_weights g vs) vs wv)) \<and>
         set (map fst (apply_weights ek (generate_weights g vs) vs wv)) = signer ` set ys"
    and "v \<in> signer ` set ys \<Longrightarrow> ballot_ok dk (the (map_of wv v)) \<and>
           map_of (apply_weights ek (generate_weights g vs) vs wv) v
             = Some (ballot_weight ek (resolve_power g v (signer ` set ys)) (the (map_of wv v)))"
proof -
  have dv: "distinct vs" and sv: "set vs = signer ` set ys" and dk: "distinct (map fst wv)"
    and kw: "set (map fst wv) = signer ` set ys"
    using st by (simp_all add: latest_state_def)
  then show "distinct (map fst (apply_weights ek (generate_weights g vs) vs wv)) \<and>
             set (map fst (apply_weights ek (generate_weights g vs) vs wv)) = signer ` set ys"
    by (simp add: apply_weights_keys)
  assume v: "v \<in> signer ` set ys"
  then have "v \<in> fst ` set wv" using kw by simp
  then obtain b where b: "map_of wv v = Some b"
    by (cases "map_of wv v") (simp_all add: map_of_eq_None_iff)
  then obtain sb where "sb \<in> set ys" "data sb = b"
    using st unfolding latest_state_def by blast
  then have "ballot_ok dk (the (map_of wv v))" using wf b by auto
  moreover have "map_of (apply_weights ek (generate_weights g vs) vs wv) v
                   = Some (ballot_weight ek (resolve_power g v (signer ` set ys)) (the (map_of wv v)))"
    using b v apply_weights_map_of [OF dv, of ek "generate_weights g vs" wv v] sv
    by (simp add: generate_weights_eq)
  ultimately show "ballot_ok dk (the (map_of wv v)) \<and> map_of (apply_weights ek (generate_weights g vs) vs wv) v
                     = Some (ballot_weight ek (resolve_power g v (signer ` set ys)) (the (map_of wv v)))" ..
qed

text \<open>
  C6. The tally is the weighted majority of the latest ballots: when the keys match,
  \<open>blocks()\<close> returns, every ballot on the blocks it reads is well formed and the
  total weight of the voters is below the Paillier modulus, \<open>generate_vote_result\<close>
  returns whether the weighted yes votes outnumber the weighted no votes, each
  voter weighted by \<open>resolve_power\<close> and counted by its latest ballot.
\<close>

theorem generate_vote_result_majority:
  assumes keys: "dk_n dk = ek_n ek"
    and bl: "blocks chain = Some bs"
    and wf: "\<forall>sb\<in>set (chain_votes bs). ballot_ok dk (data sb)"
    and small: "(\<Sum>v\<in>signer ` set (chain_votes bs). int (resolve_power g v (signer ` set (chain_votes bs)))) < ek_n ek"
  shows "generate_vote_result dk ek chain g =
           Some ((\<Sum>v\<in>signer ` set (chain_votes bs). int (resolve_power g v (signer ` set (chain_votes bs))) *
                    paillier_decrypt dk (vote_against (the (map_of (fst (collect_votes bs)) v))))
                 < (\<Sum>v\<in>signer ` set (chain_votes bs). int (resolve_power g v (signer ` set (chain_votes bs))) *
                    paillier_decrypt dk (vote_for (the (map_of (fst (collect_votes bs)) v)))))"
proof -
  let ?V = "signer ` set (chain_votes bs)"
  let ?w = "\<lambda>v. resolve_power g v ?V"
  obtain wv vs where cv: "collect_votes bs = (wv, vs)" by (cases "collect_votes bs")
  let ?L = "\<lambda>v. the (map_of wv v)"
  let ?wv' = "apply_weights ek (generate_weights g vs) vs wv"
  have st: "latest_state (chain_votes bs) wv vs"
    using latest_state_collect_votes [of bs] cv by simp
  then have sv: "set vs = ?V" by (simp add: latest_state_def)
  note keys' = latest_state_weighted(1) [OF st wf, of ek g, THEN conjunct1]
    latest_state_weighted(1) [OF st wf, of ek g, THEN conjunct2]
  have ok: "ballot_ok dk (?L v)" and m': "map_of ?wv' v = Some (ballot_weight ek (?w v) (?L v))"
    if "v \<in> ?V" for v
    using latest_state_weighted(2) [OF st wf that, of ek g] by simp_all
  have bit_for: "paillier_decrypt dk (vote_for (?L v)) \<in> {0, 1}" if "v \<in> ?V" for v
    using ok [OF that] by (simp add: ballot_ok_def)
  have bit_against: "paillier_decrypt dk (vote_against (?L v)) \<in> {0, 1}" if "v \<in> ?V" for v
    using ok [OF that] by (rule ballot_ok_against)
  have sel_for: "vote_for (ballot_weight ek n b) = paillier_mul ek (vote_for b) (int n)" for n b
    by (simp add: ballot_weight_def)
  have sel_against: "vote_against (ballot_weight ek n b) = paillier_mul ek (vote_against b) (int n)" for n b
    by (simp add: ballot_weight_def)
  note cf = weighted_counter [where sel = vote_for and w = ?w and L = ?L, OF keys keys' m' bit_for small sel_for]
    and ca = weighted_counter [where sel = vote_against and w = ?w and L = ?L, OF keys keys' m' bit_against small sel_against]
  obtain rf ra where ts: "tally_sum ek (map snd ?wv') = (rf, ra)" by (cases "tally_sum ek (map snd ?wv')")
  have dec: "paillier_decrypt dk rf = (\<Sum>v\<in>?V. int (?w v) * paillier_decrypt dk (vote_for (?L v)))"
            "paillier_decrypt dk ra = (\<Sum>v\<in>?V. int (?w v) * paillier_decrypt dk (vote_against (?L v)))"
    using decrypt_tally_sum [OF keys, of "map snd ?wv'"] ts cf ca
    by simp_all
  show ?thesis
    using bl cv ts dec sv by (simp add: generate_vote_result_def)
qed


section \<open>Witnesses\<close>

lemma s2_blocks: "blocks s2_store = Some [s5_genesis, s2_block1]"
  by (simp add: blocks_def s2_store_def chain_new_def upt_rec)

lemma s2_votes: "chain_votes [s5_genesis, s2_block1] = [test_vote 4 True 1]"
  by (simp add: chain_votes_def ballots_of_def s5_genesis_def s2_block1_def test_block_def)

text \<open>Scenario S2: \<open>d\<close> votes yes with weight 4 and the vote passes.\<close>

theorem generate_vote_result_majority_witness:
  "dk_n \<lparr>dk_n = 7\<rparr> = ek_n \<lparr>ek_n = 7\<rparr> \<and> blocks s2_store = Some [s5_genesis, s2_block1] \<and>
   resolve_power s2_graph 4 {4} = 4 \<and>
   generate_vote_result \<lparr>dk_n = 7\<rparr> \<lparr>ek_n = 7\<rparr> s2_store s2_graph = Some True"
proof -
  have ok: "\<forall>sb\<in>set (chain_votes [s5_genesis, s2_block1]). ballot_ok \<lparr>dk_n = 7\<rparr> (data sb)"
    by (simp add: s2_votes ballot_ok_def test_vote_def ballot_new_def encode_verdict_def
                  paillier_encrypt_def Let_def)
  have w: "resolve_power s2_graph 4 {4} = 4"
    by (simp add: s2_graph_def resolve_power_def new_graph_def get_adj_list_def adj_insert_def
                  children_def push_children_def)
  have V: "signer ` set (chain_votes [s5_genesis, s2_block1]) = {4}"
    by (simp add: s2_votes test_vote_def)
  have small: "(\<Sum>v\<in>signer ` set (chain_votes [s5_genesis, s2_block1]).
                  int (resolve_power s2_graph v (signer ` set (chain_votes [s5_genesis, s2_block1]))))
               < ek_n \<lparr>ek_n = 7\<rparr>"
    by (simp add: V w)
  have kept: "map_of (fst (collect_votes [s5_genesis, s2_block1])) 4 = Some (data (test_vote 4 True 1))"
    by (simp add: collect_votes_fold s2_votes collect_ballot_def latest_insert_def test_vote_def)
  have "generate_vote_result \<lparr>dk_n = 7\<rparr> \<lparr>ek_n = 7\<rparr> s2_store s2_graph = Some True"
    using generate_vote_result_majority [OF _ s2_blocks ok small] kept
    by (simp add: V w test_vote_def ballot_new_def encode_verdict_def paillier_encrypt_def Let_def)
  then show ?thesis
    using ok w s2_blocks by simp
qed

text \<open>The yes ballot of time 2 is kept for signer 1.\<close>

theorem collect_votes_latest_witness:
  "map_of (fst (collect_votes latest_demo)) 1 = Some (data (test_vote 1 True 2)) \<and>
   map_of (fst (collect_votes latest_demo)) 2 = None"
proof -
  have kept: "map_of (fst (collect_votes latest_demo)) 1 = Some (data (test_vote 1 True 2))"
    by (simp add: latest_demo_def collect_votes_fold chain_votes_def ballots_of_def test_block_def
                  collect_ballot_def latest_insert_def test_vote_def ballot_new_def encode_verdict_def Let_def)
  have "2 \<notin> signer ` set (chain_votes latest_demo)"
    by (simp add: latest_demo_def chain_votes_def ballots_of_def test_block_def test_vote_def)
  then have "map_of (fst (collect_votes latest_demo)) 2 = None"
    using collect_votes_latest [of latest_demo 2] by blast
  then show ?thesis using kept by blast
qed

end
