(* ===== verification/Sync.thy ===== *)
theory Sync
  imports Chain
begin

text \<open>
  The chain-sync protocol of \<open>src/node/src/protocols/chain_sync/protocol.rs\<close>. The
  initiator (\<open>send_sync\<close>) walks back from its head: it sends its height and the hash
  there, and the responder (\<open>recv_sync\<close>) answers \<open>NotFound\<close> when its block at that
  index hashes differently, or streams its blocks from that index as \<open>Found\<close>
  messages, the last one with \<open>remaining = 0\<close>, after which the initiator calls
  \<open>try_update_longest\<close>. The model is message-level: the responder is a function
  from a request to the responses it writes and whether it keeps listening, the
  initiator is a function from one response (or the end of the stream, \<open>None\<close>) to
  its next state or its result, and the conversation of two nodes composes them. A
  panic of the initiator (an \<open>unwrap\<close> on an error, a \<open>u32\<close> underflow) is \<open>None\<close>.
  The lemmas show when the conversation ends, that a successful sync leaves the
  initiator on the responder's chain from the fork point on, never shorter than
  before, and where the code panics or departs from the specification.
\<close>

section \<open>Messages\<close>

text \<open>\<open>struct SyncRequest\<close>: an index and the initiator's hash there.\<close>

datatype 'h sync_request = SyncRequest nat 'h

text \<open>\<open>struct ChainSyncInfo\<close>.\<close>

record 'h chain_sync_info =
  fork_index :: nat
  sync_block :: "'h block"
  remaining :: nat

text \<open>\<open>enum SyncResponse\<close>.\<close>

datatype 'h sync_response = Found "'h chain_sync_info" | NotFound

text \<open>The two errors \<open>send_sync\<close> returns: no common block down to the genesis block,
  and a stream that ends before the transfer is complete.\<close>

datatype sync_error = NoSyncPoint | NoResponse

section \<open>The responder\<close>

text \<open>The sending loop of \<open>recv_sync\<close>: block \<open>k\<close> of \<open>n\<close> carries
  \<open>remaining = n - 1 - k\<close> (every send succeeds).\<close>

fun found_msgs :: "nat \<Rightarrow> 'h block list \<Rightarrow> nat \<Rightarrow> 'h sync_response list" where
  "found_msgs i [] r = []"
| "found_msgs i (b # bs) r = Found \<lparr>fork_index = i, sync_block = b, remaining = r - 1\<rparr> # found_msgs i bs (r - 1)"

text \<open>
  One request handled by \<open>recv_sync\<close>: the responses written and whether the
  responder keeps listening. A missing block closes the stream; a matching hash
  streams \<open>blocks_from(index)\<close> (nothing when that read fails) and returns; a
  mismatch writes \<open>NotFound\<close> and keeps listening unless the index is 0.
\<close>

definition recv_handle :: "'h hasher \<Rightarrow> 'h blockchain \<Rightarrow> 'h sync_request \<Rightarrow> 'h sync_response list \<times> bool" where
  "recv_handle H s req =
     (case req of SyncRequest i h \<Rightarrow>
        (case get_hash_at H s i of
           Inl _ \<Rightarrow> ([], False)
         | Inr h' \<Rightarrow>
             if h' = h then
               (let bs = (case blocks_from s i of Inl _ \<Rightarrow> [] | Inr bs \<Rightarrow> bs)
                in (found_msgs i bs (length bs), False))
             else ([NotFound], i \<noteq> 0)))"

text \<open>The errors \<open>recv_sync\<close> returns: no sync point (the requested block is
  missing, or index 0 does not match), another read error, and a stream that
  ends before a request matches.\<close>

datatype recv_error = RecvNoSyncPoint | RecvOtherError | RecvTimedOut

text \<open>
  The whole listener loop of \<open>recv_sync\<close> over the requests the initiator writes
  (the end of the list is the stream ending): the responses it writes and its
  result, \<open>Ok\<close> once it has streamed the blocks from a matching index.
\<close>

fun recv_sync :: "'h hasher \<Rightarrow> 'h blockchain \<Rightarrow> 'h sync_request list \<Rightarrow> 'h sync_response list \<times> (recv_error + unit)" where
  "recv_sync H s [] = ([], Inl RecvTimedOut)"
| "recv_sync H s (SyncRequest i h # reqs) =
     (case get_hash_at H s i of
        Inl (BlockNotFound _) \<Rightarrow> ([], Inl RecvNoSyncPoint)
      | Inl _ \<Rightarrow> ([], Inl RecvOtherError)
      | Inr h' \<Rightarrow>
          if h' = h then
            (let bs = (case blocks_from s i of Inl _ \<Rightarrow> [] | Inr bs \<Rightarrow> bs)
             in (found_msgs i bs (length bs), Inr ()))
          else if i = 0 then ([NotFound], Inl RecvNoSyncPoint)
          else (let (rs, r) = recv_sync H s reqs in (NotFound # rs, r)))"

text \<open>The responder as the conversation of this theory uses it: \<open>recv_handle\<close>
  applied to the requests in turn, for as long as it keeps listening.\<close>

fun handle_stream :: "'h hasher \<Rightarrow> 'h blockchain \<Rightarrow> 'h sync_request list \<Rightarrow> 'h sync_response list" where
  "handle_stream H s [] = []"
| "handle_stream H s (req # reqs) =
     (let (out, listen) = recv_handle H s req in out @ (if listen then handle_stream H s reqs else []))"

section \<open>The initiator\<close>

text \<open>The initiator's loop state: the height it asks about and the blocks received.\<close>

record 'h sync_state =
  sync_height :: nat
  block_buffer :: "'h block list"

text \<open>The result of \<open>send_sync\<close>: the initiator's store and the returned status;
  \<open>None\<close> is a panic.\<close>

type_synonym 'h sync_result = "('h blockchain \<times> (sync_error + unit)) option"

text \<open>
  One response read by \<open>send_sync\<close> (\<open>None\<close>: the stream ended). \<open>Inr\<close> is the next
  loop state, \<open>Inl\<close> the result. The last \<open>Found\<close> triggers the reorganisation, whose
  error is unwrapped (a panic); a \<open>NotFound\<close> at height 1 gives up, at height 0 the
  decrement underflows.
\<close>

definition on_response ::
  "'h hasher \<Rightarrow> 'h blockchain \<Rightarrow> 'h sync_state \<Rightarrow> 'h sync_response option \<Rightarrow> 'h sync_result + 'h sync_state" where
  "on_response H s st r =
     (case r of
        None \<Rightarrow> Inl (Some (s, Inl NoResponse))
      | Some (Found info) \<Rightarrow>
          (let buf = block_buffer st @ [sync_block info]
           in if remaining info = 0 then
                Inl (case try_update_longest H s (fork_index info) buf of
                       None \<Rightarrow> None
                     | Some (Inl _) \<Rightarrow> None
                     | Some (Inr (_, s')) \<Rightarrow> Some (s', Inr ()))
              else Inr (st\<lparr>block_buffer := buf\<rparr>))
      | Some NotFound \<Rightarrow>
          if sync_height st = 1 then Inl (Some (s, Inl NoSyncPoint))
          else if sync_height st = 0 then Inl None
          else Inr (st\<lparr>sync_height := sync_height st - 1\<rparr>))"

text \<open>
  The initiator's loop once the responder has stopped: each iteration still sends
  a request (reading its own hash with \<open>unwrap\<close>), then reads the next queued
  response.
\<close>

fun sync_drain ::
  "'h hasher \<Rightarrow> 'h blockchain \<Rightarrow> 'h sync_response list \<Rightarrow> 'h sync_state \<Rightarrow> 'h sync_result" where
  "sync_drain H s [] st =
     (case get_hash_at H s (sync_height st) of
        Inl _ \<Rightarrow> None
      | Inr _ \<Rightarrow> (case on_response H s st None of Inl res \<Rightarrow> res | Inr _ \<Rightarrow> None))"
| "sync_drain H s (r # rs) st =
     (case get_hash_at H s (sync_height st) of
        Inl _ \<Rightarrow> None
      | Inr _ \<Rightarrow> (case on_response H s st (Some r) of Inl res \<Rightarrow> res | Inr st' \<Rightarrow> sync_drain H s rs st'))"

text \<open>
  The initiator's loop while the responder listens: send the request at the
  current height, let the responder handle it, read its first response. The
  responder keeps listening only after a \<open>NotFound\<close>, which lowers the height, so
  the walk-back ends.
\<close>

function sync_walk ::
  "'h hasher \<Rightarrow> 'h blockchain \<Rightarrow> 'h blockchain \<Rightarrow> 'h sync_state \<Rightarrow> 'h sync_result" where
  "sync_walk H s t st =
     (case get_hash_at H s (sync_height st) of
        Inl _ \<Rightarrow> None
      | Inr hh \<Rightarrow>
          (case recv_handle H t (SyncRequest (sync_height st) hh) of
             ([], _) \<Rightarrow> (case on_response H s st None of Inl res \<Rightarrow> res | Inr _ \<Rightarrow> None)
           | (r # rs, listening) \<Rightarrow>
               (case on_response H s st (Some r) of
                  Inl res \<Rightarrow> res
                | Inr st' \<Rightarrow> if listening then sync_walk H s t st' else sync_drain H s rs st')))"
  by pat_completeness auto

termination sync_walk
  by (relation "measure (\<lambda>(H, s, t, st). sync_height st)")
     (auto simp: recv_handle_def on_response_def Let_def split: sync_request.splits sum.splits if_splits
           sync_response.splits option.splits)

declare sync_walk.simps [simp del]

text \<open>\<open>send_sync\<close>: start at the initiator's height with an empty buffer.\<close>

definition send_sync :: "'h hasher \<Rightarrow> 'h blockchain \<Rightarrow> 'h blockchain \<Rightarrow> 'h sync_result" where
  "send_sync H s t = sync_walk H s t \<lparr>sync_height = height s, block_buffer = []\<rparr>"

section \<open>Scenario data\<close>

text \<open>Scenario S6 of the specification, at height 3: two stores that share only the
  genesis block, whose second blocks carry different ballots.\<close>

definition s6_a2 :: "sym_hash block" where
  "s6_a2 = test_block 1 (block_hash sym_hasher s5_genesis) (Ballots [test_vote 1 True 1])"

definition s6_b2 :: "sym_hash block" where
  "s6_b2 = test_block 1 (block_hash sym_hasher s5_genesis) (Ballots [test_vote 2 False 1])"

definition s6_a :: "sym_hash blockchain" where
  "s6_a = chain_new sym_hasher s5_genesis
     [(1, s5_genesis), (2, s6_a2), (3, test_block 2 (block_hash sym_hasher s6_a2) (Ballots []))] (SigningKey 0)"

definition s6_b :: "sym_hash blockchain" where
  "s6_b = chain_new sym_hasher s5_genesis
     [(1, s5_genesis), (2, s6_b2), (3, test_block 2 (block_hash sym_hasher s6_b2) (Ballots []))] (SigningKey 1)"

text \<open>A store of height 1 with another genesis block.\<close>

definition other_genesis :: "sym_hash blockchain" where
  "other_genesis = chain_new sym_hasher (test_block 5 ZeroHash (Genesis [])) [] (SigningKey 1)"

section \<open>Lemmas\<close>

lemma get_hash_at_inv:
  "chain_inv H s \<Longrightarrow> get_hash_at H s i =
     (if 1 \<le> i \<and> i \<le> height s then Inr (block_hash H (chain_of s ! (i - 1))) else Inl (BlockNotFound i))"
  by (simp add: get_hash_at_def get_block_def map_of_chain_db)

lemma collect_blocks_map:
  "(\<forall>j\<in>set is. map_of db j = Some (f j)) \<Longrightarrow> collect_blocks db is = Inr (map f is)"
  by (induction "is") auto

lemma blocks_from_inv:
  assumes inv: "chain_inv H s" and i: "1 \<le> i" "i \<le> height s"
  shows "blocks_from s i = Inr (drop (i - 1) (chain_of s))"
proof -
  have "collect_blocks (chain_db s) [i..<Suc (height s)] = Inr (map (\<lambda>j. chain_of s ! (j - 1)) [i..<Suc (height s)])"
    using i by (intro collect_blocks_map) (auto simp: map_of_chain_db [OF inv])
  moreover have "map (\<lambda>j. chain_of s ! (j - 1)) [i..<Suc (height s)] = drop (i - 1) (chain_of s)"
  proof (rule nth_equalityI)
    show "length (map (\<lambda>j. chain_of s ! (j - 1)) [i..<Suc (height s)]) = length (drop (i - 1) (chain_of s))"
      using i by (simp del: upt_Suc)
  next
    fix k assume "k < length (map (\<lambda>j. chain_of s ! (j - 1)) [i..<Suc (height s)])"
    then have k: "k < Suc (height s) - i" by (simp del: upt_Suc)
    have "i + k - 1 = i - 1 + k" using i by arith
    then show "map (\<lambda>j. chain_of s ! (j - 1)) [i..<Suc (height s)] ! k = drop (i - 1) (chain_of s) ! k"
      using k i by (simp add: nth_upt del: upt_Suc)
  qed
  ultimately show ?thesis by (simp add: blocks_from_def)
qed

lemma sync_drain_found:
  assumes ok: "get_hash_at H s (sync_height st) = Inr x"
  shows "sync_drain H s (found_msgs i bs (length bs)) st =
           (if bs = [] then Some (s, Inl NoResponse)
            else case try_update_longest H s i (block_buffer st @ bs) of
                   Some (Inr (_, s')) \<Rightarrow> Some (s', Inr ())
                 | _ \<Rightarrow> None)"
  using ok
proof (induction bs arbitrary: st)
  case Nil
  then show ?case by (simp add: on_response_def)
next
  case (Cons b bs)
  show ?case
  proof (cases bs)
    case Nil
    then show ?thesis using Cons.prems
      by (simp add: on_response_def split: option.splits sum.splits)
  next
    case (Cons b' bs')
    then have "on_response H s st (Some (Found \<lparr>fork_index = i, sync_block = b, remaining = length bs\<rparr>))
                 = Inr (st\<lparr>block_buffer := block_buffer st @ [b]\<rparr>)"
      by (simp add: on_response_def)
    then show ?thesis
      using Cons.prems Cons.IH [of "st\<lparr>block_buffer := block_buffer st @ [b]\<rparr>"] \<open>bs = b' # bs'\<close>
      by simp
  qed
qed

lemma sync_walk_stop:
  "get_hash_at H s (sync_height st) = Inr hh \<Longrightarrow> recv_handle H t (SyncRequest (sync_height st) hh) = (rs, False) \<Longrightarrow>
   sync_walk H s t st = sync_drain H s rs st"
  by (cases rs) (simp_all add: sync_walk.simps split: sum.splits)

lemma sync_walk_back:
  "get_hash_at H s (sync_height st) = Inr hh \<Longrightarrow> recv_handle H t (SyncRequest (sync_height st) hh) = ([NotFound], True) \<Longrightarrow>
   sync_walk H s t st =
     (if sync_height st = 1 then Some (s, Inl NoSyncPoint)
      else if sync_height st = 0 then None
      else sync_walk H s t (st\<lparr>sync_height := sync_height st - 1\<rparr>))"
  by (simp add: sync_walk.simps on_response_def)

lemma recv_handle_inv:
  assumes inv: "chain_inv H t" and i: "1 \<le> i" "i \<le> height t"
  shows "recv_handle H t (SyncRequest i hh) =
           (if block_hash H (chain_of t ! (i - 1)) = hh
            then (found_msgs i (drop (i - 1) (chain_of t)) (length (drop (i - 1) (chain_of t))), False)
            else ([NotFound], True))"
  using i by (simp add: recv_handle_def get_hash_at_inv [OF inv] blocks_from_inv [OF inv])

lemma is_valid_chain_drop: "is_valid_chain H c \<Longrightarrow> is_valid_chain H (drop k c)"
  by (metis append_take_drop_id is_valid_chain_append)

lemma sync_reorg:
  assumes invA: "chain_inv H s" and invB: "chain_inv H t"
    and f: "1 \<le> f" "f \<le> height s" "f \<le> height t"
    and agree: "block_hash H (chain_of s ! (f - 1)) = block_hash H (chain_of t ! (f - 1))"
  shows "\<exists>s'. try_update_longest H s f (drop (f - 1) (chain_of t)) = Some (Inr (Suc (height t), s')) \<and>
              chain_of s' = take (f - 1) (chain_of s) @ drop (f - 1) (chain_of t) \<and> height s' = height t"
proof -
  let ?bs = "drop (f - 1) (chain_of t)"
  have "f - 1 < length (chain_of t)" using f by simp
  then have ne: "?bs = chain_of t ! (f - 1) # drop (Suc (f - 1)) (chain_of t)"
    by (rule Cons_nth_drop_Suc [symmetric])
  define b0 where "b0 = chain_of t ! (f - 1)"
  define rest where "rest = drop (Suc (f - 1)) (chain_of t)"
  have ne': "?bs = b0 # rest" using ne by (simp add: b0_def rest_def)
  have fb: "get_block s f = Inr (chain_of s ! (f - 1))"
    using f by (simp add: get_block_def map_of_chain_db [OF invA])
  have valid: "is_valid_chain H (b0 # rest)"
    using invB ne' by (metis chain_inv_def is_valid_chain_drop)
  have "length (b0 # rest) = length ?bs" by (simp only: ne')
  then have len: "f + length (b0 # rest) = Suc (height t)" using f by simp
  obtain db1 pool1 where st: "strip (chain_db s) (ballot_pool s) [f..<height s] = (db1, pool1)"
    by (cases "strip (chain_db s) (ballot_pool s) [f..<height s]")
  define s' where "s' = s\<lparr>chain_db := put_blocks db1 f (b0 # rest), ballot_pool := pool1,
                          height := f + length (b0 # rest) - 1\<rparr>"
  have "try_update_longest H s f (b0 # rest) = Some (Inr (f + length (b0 # rest), s'))"
    using fb agree valid st by (simp add: try_update_longest_def s'_def b0_def del: put_blocks.simps)
  then have r: "try_update_longest H s f ?bs = Some (Inr (Suc (height t), s'))"
    using ne' len by simp
  moreover have "chain_of s' = take (f - 1) (chain_of s) @ ?bs"
    by (rule try_update_longest_chain_of [OF invA r])
  moreover have "height s' = height t" using len by (simp add: s'_def)
  ultimately show ?thesis by blast
qed

lemma sync_walk_match:
  assumes invA: "chain_inv H s" and invB: "chain_inv H t"
    and h: "sync_height st = h" "1 \<le> h" "h \<le> height s" "h \<le> height t" and buf: "block_buffer st = []"
    and agree: "block_hash H (chain_of s ! (h - 1)) = block_hash H (chain_of t ! (h - 1))"
  shows "sync_walk H s t st =
           (case try_update_longest H s h (drop (h - 1) (chain_of t)) of
              Some (Inr (_, s')) \<Rightarrow> Some (s', Inr ()) | _ \<Rightarrow> None)"
proof -
  let ?bs = "drop (h - 1) (chain_of t)"
  have gA: "get_hash_at H s (sync_height st) = Inr (block_hash H (chain_of s ! (h - 1)))"
    using h by (simp add: get_hash_at_inv [OF invA])
  have "recv_handle H t (SyncRequest (sync_height st) (block_hash H (chain_of s ! (h - 1))))
          = (found_msgs h ?bs (length ?bs), False)"
    using h agree by (simp add: recv_handle_inv [OF invB])
  then have "sync_walk H s t st = sync_drain H s (found_msgs h ?bs (length ?bs)) st"
    by (rule sync_walk_stop [OF gA])
  moreover have "?bs \<noteq> []" using h by simp
  ultimately show ?thesis
    using sync_drain_found [OF gA, of h ?bs] buf by simp
qed

lemma sync_walk_inv:
  assumes invA: "chain_inv H s" and invB: "chain_inv H t" and hs: "height s \<le> height t"
  shows "sync_height st = h \<Longrightarrow> 1 \<le> h \<Longrightarrow> h \<le> height s \<Longrightarrow> block_buffer st = [] \<Longrightarrow>
    sync_walk H s t st =
      (if \<exists>i\<in>{1..h}. block_hash H (chain_of s ! (i - 1)) = block_hash H (chain_of t ! (i - 1))
       then (case try_update_longest H s (Max {i\<in>{1..h}. block_hash H (chain_of s ! (i - 1)) = block_hash H (chain_of t ! (i - 1))})
                    (drop (Max {i\<in>{1..h}. block_hash H (chain_of s ! (i - 1)) = block_hash H (chain_of t ! (i - 1))} - 1) (chain_of t)) of
               Some (Inr (_, s')) \<Rightarrow> Some (s', Inr ()) | _ \<Rightarrow> None)
       else Some (s, Inl NoSyncPoint))"
proof (induction h arbitrary: st)
  case 0
  then show ?case by simp
next
  case (Suc h)
  let ?ag = "\<lambda>i. block_hash H (chain_of s ! (i - 1)) = block_hash H (chain_of t ! (i - 1))"
  show ?case
  proof (cases "?ag (Suc h)")
    case True
    have M: "Max {i\<in>{1..Suc h}. ?ag i} = Suc h"
      using True by (intro Max_eqI) auto
    have "\<exists>i\<in>{1..Suc h}. ?ag i" using True by (intro bexI [of _ "Suc h"]) auto
    then show ?thesis
      unfolding M
      using sync_walk_match [OF invA invB Suc.prems(1) Suc.prems(2) Suc.prems(3) _ Suc.prems(4)] True hs Suc.prems
      by simp
  next
    case False
    have gA: "get_hash_at H s (sync_height st) = Inr (block_hash H (chain_of s ! h))"
      using Suc.prems by (simp add: get_hash_at_inv [OF invA])
    have "recv_handle H t (SyncRequest (sync_height st) (block_hash H (chain_of s ! h))) = ([NotFound], True)"
      using Suc.prems hs False by (simp add: recv_handle_inv [OF invB])
    note wb = sync_walk_back [OF gA this]
    show ?thesis
    proof (cases "h = 0")
      case True
      then show ?thesis using wb Suc.prems False by auto
    next
      case False
      have set: "{i\<in>{1..Suc h}. ?ag i} = {i\<in>{1..h}. ?ag i}"
        using \<open>\<not> ?ag (Suc h)\<close> by (auto simp: le_Suc_eq)
      have "sync_walk H s t (st\<lparr>sync_height := sync_height st - 1\<rparr>) =
              (if \<exists>i\<in>{1..h}. ?ag i
               then (case try_update_longest H s (Max {i\<in>{1..h}. ?ag i}) (drop (Max {i\<in>{1..h}. ?ag i} - 1) (chain_of t)) of
                       Some (Inr (_, s')) \<Rightarrow> Some (s', Inr ()) | _ \<Rightarrow> None)
               else Some (s, Inl NoSyncPoint))"
        using Suc.IH [of "st\<lparr>sync_height := sync_height st - 1\<rparr>"] Suc.prems False by simp
      moreover have "(\<exists>i\<in>{1..Suc h}. ?ag i) = (\<exists>i\<in>{1..h}. ?ag i)"
        using set by blast
      ultimately show ?thesis
        using wb Suc.prems False set by simp
    qed
  qed
qed

lemma send_sync_cases:
  assumes invA: "chain_inv H s" and invB: "chain_inv H t"
  shows "send_sync H s t =
    (if height t < height s then Some (s, Inl NoResponse)
     else if \<exists>i\<in>{1..height s}. block_hash H (chain_of s ! (i - 1)) = block_hash H (chain_of t ! (i - 1))
     then (case try_update_longest H s (Max {i\<in>{1..height s}. block_hash H (chain_of s ! (i - 1)) = block_hash H (chain_of t ! (i - 1))})
                  (drop (Max {i\<in>{1..height s}. block_hash H (chain_of s ! (i - 1)) = block_hash H (chain_of t ! (i - 1))} - 1) (chain_of t)) of
             Some (Inr (_, s')) \<Rightarrow> Some (s', Inr ()) | _ \<Rightarrow> None)
     else Some (s, Inl NoSyncPoint))"
proof (cases "height t < height s")
  case True
  have h1: "1 \<le> height s" using invA by (simp add: chain_inv_def)
  let ?st = "\<lparr>sync_height = height s, block_buffer = []\<rparr> :: 'a sync_state"
  have gA: "get_hash_at H s (sync_height ?st) = Inr (block_hash H (chain_of s ! (height s - 1)))"
    using h1 by (simp add: get_hash_at_inv [OF invA])
  have "recv_handle H t (SyncRequest (sync_height ?st) (block_hash H (chain_of s ! (height s - 1)))) = ([], False)"
    using True by (simp add: recv_handle_def get_hash_at_inv [OF invB])
  then have "sync_walk H s t ?st = sync_drain H s [] ?st"
    by (rule sync_walk_stop [OF gA])
  then show ?thesis
    using True gA by (simp add: send_sync_def on_response_def)
next
  case False
  have h1: "1 \<le> height s" using invA by (simp add: chain_inv_def)
  show ?thesis
    using False sync_walk_inv [OF invA invB _ , of "\<lparr>sync_height = height s, block_buffer = []\<rparr>" "height s"] h1
    by (simp add: send_sync_def)
qed

lemma Max_agree:
  assumes "1 \<le> (f::nat)" "f \<le> h" "P f" "\<forall>i. f < i \<and> i \<le> h \<longrightarrow> \<not> P i"
  shows "Max {i\<in>{1..h}. P i} = f"
proof (rule Max_eqI)
  show "finite {i\<in>{1..h}. P i}" by simp
  show "f \<in> {i\<in>{1..h}. P i}" using assms by simp
  fix y assume "y \<in> {i\<in>{1..h}. P i}"
  then show "y \<le> f" using assms(4) by (auto simp: not_le [symmetric])
qed

text \<open>Between two stores that satisfy the invariant, a sync never panics; it either
  leaves the initiator as it was or moves it onto the responder's chain from the
  greatest index where the hashes agree, at the responder's height.\<close>

lemma send_sync_Some:
  assumes invA: "chain_inv H s" and invB: "chain_inv H t"
    and binds: "\<forall>t p xs t' p' xs'. digest H t p xs = digest H t' p' xs' \<longrightarrow> p = p'"
  shows "\<exists>s' r. send_sync H s t = Some (s', r) \<and> chain_inv H s' \<and> height s \<le> height s' \<and>
           (r = Inr () \<longrightarrow> height s' = height t) \<and> (r \<noteq> Inr () \<longrightarrow> s' = s)"
proof (cases "height t < height s")
  case True
  then show ?thesis using send_sync_cases [OF invA invB] invA by simp
next
  case False
  let ?A = "{i\<in>{1..height s}. block_hash H (chain_of s ! (i - 1)) = block_hash H (chain_of t ! (i - 1))}"
  show ?thesis
  proof (cases "?A = {}")
    case True
    then have "\<not> (\<exists>i\<in>{1..height s}. block_hash H (chain_of s ! (i - 1)) = block_hash H (chain_of t ! (i - 1)))"
      by blast
    then show ?thesis using send_sync_cases [OF invA invB] invA False by simp
  next
    case ne: False
    have "finite ?A" by simp
    then have M: "Max ?A \<in> ?A" using ne by (rule Max_in)
    then have f: "1 \<le> Max ?A" "Max ?A \<le> height s" "Max ?A \<le> height t" using False by auto
    have ag: "block_hash H (chain_of s ! (Max ?A - 1)) = block_hash H (chain_of t ! (Max ?A - 1))"
      using M by simp
    obtain s' where r: "try_update_longest H s (Max ?A) (drop (Max ?A - 1) (chain_of t)) = Some (Inr (Suc (height t), s'))"
      and h': "height s' = height t"
      using sync_reorg [OF invA invB f ag] by blast
    have "chain_inv H s'"
      using try_update_longest_inv [OF invA binds r] False h' by simp
    moreover have "\<exists>i\<in>{1..height s}. block_hash H (chain_of s ! (i - 1)) = block_hash H (chain_of t ! (i - 1))"
      using M by blast
    ultimately show ?thesis
      using send_sync_cases [OF invA invB] False r h' by simp
  qed
qed

text \<open>
  C23. Sync convergence (property 10 of the specification): if both stores satisfy
  the invariant, the responder is at least as high, and \<open>f\<close> is the greatest index
  up to the initiator's height where the two blocks hash alike, then \<open>send_sync\<close>
  succeeds, and the initiator's chain becomes its own blocks before \<open>f\<close> followed by
  the responder's blocks from \<open>f\<close> on, at the responder's height, with the invariant
  kept; when the two chains agree before \<open>f\<close> it becomes the responder's chain. The
  responder may be exactly as high as the initiator: a chain of equal length is
  adopted, where the specification speaks of a strictly longer one.
\<close>

theorem sync_converges:
  assumes invA: "chain_inv H s" and invB: "chain_inv H t"
    and binds: "\<forall>t p xs t' p' xs'. digest H t p xs = digest H t' p' xs' \<longrightarrow> p = p'"
    and longer: "height s \<le> height t"
    and f: "1 \<le> f" "f \<le> height s"
    and agree: "block_hash H (chain_of s ! (f - 1)) = block_hash H (chain_of t ! (f - 1))"
    and diverge: "\<forall>i. f < i \<and> i \<le> height s \<longrightarrow> block_hash H (chain_of s ! (i - 1)) \<noteq> block_hash H (chain_of t ! (i - 1))"
  shows "\<exists>s'. send_sync H s t = Some (s', Inr ()) \<and> chain_inv H s' \<and> height s' = height t \<and>
              chain_of s' = take (f - 1) (chain_of s) @ drop (f - 1) (chain_of t) \<and>
              (take (f - 1) (chain_of s) = take (f - 1) (chain_of t) \<longrightarrow> chain_of s' = chain_of t)"
proof -
  have M: "Max {i\<in>{1..height s}. block_hash H (chain_of s ! (i - 1)) = block_hash H (chain_of t ! (i - 1))} = f"
    using Max_agree [of f "height s" "\<lambda>i. block_hash H (chain_of s ! (i - 1)) = block_hash H (chain_of t ! (i - 1))"]
          f agree diverge by blast
  have ex: "\<exists>i\<in>{1..height s}. block_hash H (chain_of s ! (i - 1)) = block_hash H (chain_of t ! (i - 1))"
    using f agree by auto
  obtain s' where r: "try_update_longest H s f (drop (f - 1) (chain_of t)) = Some (Inr (Suc (height t), s'))"
    and c: "chain_of s' = take (f - 1) (chain_of s) @ drop (f - 1) (chain_of t)" and h': "height s' = height t"
    using sync_reorg [OF invA invB f(1) f(2) _ agree] f longer by auto
  have "send_sync H s t = Some (s', Inr ())"
    using send_sync_cases [OF invA invB] longer ex r unfolding M by simp
  moreover have "chain_inv H s'"
    using try_update_longest_inv [OF invA binds r] longer h' by simp
  moreover have "take (f - 1) (chain_of s) = take (f - 1) (chain_of t) \<longrightarrow> chain_of s' = chain_of t"
    using c by (metis append_take_drop_id)
  ultimately show ?thesis
    using c h' by blast
qed

text \<open>
  C24. The two ways a sync between valid stores fails, leaving the initiator as it
  was: a responder lower than the initiator cannot read the first request's block
  and closes the stream; a responder whose blocks hash differently at every index
  up to the initiator's height answers \<open>NotFound\<close> down to the genesis block
  (scenario S6 without a shared genesis block).
\<close>

theorem send_sync_errors:
  assumes invA: "chain_inv H s" and invB: "chain_inv H t"
  shows "(height t < height s \<longrightarrow> send_sync H s t = Some (s, Inl NoResponse)) \<and>
         (height s \<le> height t \<and>
          (\<forall>i\<in>{1..height s}. block_hash H (chain_of s ! (i - 1)) \<noteq> block_hash H (chain_of t ! (i - 1))) \<longrightarrow>
            send_sync H s t = Some (s, Inl NoSyncPoint))"
  using send_sync_cases [OF invA invB] by auto

text \<open>
  C25. A responder can crash the initiator: a final \<open>Found\<close> message whose block does
  not hash like the initiator's block at the announced fork index makes
  \<open>try_update_longest\<close> fail, and \<open>send_sync\<close> unwraps that error (a panic).
\<close>

theorem on_response_bad_block_panics:
  assumes inv: "chain_inv H s" and f: "1 \<le> fork_index info" "fork_index info \<le> height s"
    and last: "remaining info = 0" and buf: "block_buffer st = []"
    and bad: "block_hash H (sync_block info) \<noteq> block_hash H (chain_of s ! (fork_index info - 1))"
  shows "on_response H s st (Some (Found info)) = Inl None"
proof -
  have "get_block s (fork_index info) = Inr (chain_of s ! (fork_index info - 1))"
    using f by (simp add: get_block_def map_of_chain_db [OF inv])
  then show ?thesis
    using last buf bad by (simp add: on_response_def try_update_longest_def)
qed


section \<open>Witnesses\<close>

lemma s6_inv: "chain_inv sym_hasher s6_a" "chain_inv sym_hasher s6_b"
  by (auto simp: chain_inv_def chain_of_def s6_a_def s6_b_def chain_new_def s6_a2_def s6_b2_def s5_genesis_def
                 block_hash_def sym_hasher_def test_block_def)

lemma s6_chains:
  "chain_of s6_a = [s5_genesis, s6_a2, test_block 2 (block_hash sym_hasher s6_a2) (Ballots [])]"
  "chain_of s6_b = [s5_genesis, s6_b2, test_block 2 (block_hash sym_hasher s6_b2) (Ballots [])]"
  "height s6_a = 3" "height s6_b = 3"
  by (simp_all add: chain_of_def s6_a_def s6_b_def chain_new_def upt_rec)

lemma s6_hashes: "block_hash sym_hasher s6_a2 \<noteq> block_hash sym_hasher s6_b2"
  by (simp add: s6_a2_def s6_b2_def block_hash_def sym_hasher_def test_block_def test_vote_def)

text \<open>Scenario S6 at height 3: the stores share only the genesis block, the walk-back
  reaches index 1, and the initiator adopts the responder's chain, which is no
  longer than its own.\<close>

theorem sync_converges_witness:
  "\<exists>s'. send_sync sym_hasher s6_a s6_b = Some (s', Inr ()) \<and> chain_of s' = chain_of s6_b \<and>
        height s' = height s6_a"
proof -
  have d: "\<forall>i. 1 < i \<and> i \<le> height s6_a \<longrightarrow>
             block_hash sym_hasher (chain_of s6_a ! (i - 1)) \<noteq> block_hash sym_hasher (chain_of s6_b ! (i - 1))"
  proof (intro allI impI)
    fix i :: nat assume "1 < i \<and> i \<le> height s6_a"
    then have "i = 2 \<or> i = 3" using s6_chains(3) by auto
    then show "block_hash sym_hasher (chain_of s6_a ! (i - 1)) \<noteq> block_hash sym_hasher (chain_of s6_b ! (i - 1))"
      using s6_hashes by (auto simp: s6_chains block_hash_def sym_hasher_def test_block_def)
  qed
  obtain s' where "send_sync sym_hasher s6_a s6_b = Some (s', Inr ())" "height s' = height s6_b"
    "chain_of s' = take 0 (chain_of s6_a) @ drop 0 (chain_of s6_b)"
    using sync_converges [OF s6_inv(1) s6_inv(2) sym_hasher_binds_prev _ _ _ _ d] by (auto simp: s6_chains)
  then show ?thesis by (auto simp: s6_chains)
qed

lemma other_genesis_inv: "chain_inv sym_hasher other_genesis"
  by (simp add: chain_inv_def chain_of_def other_genesis_def chain_new_def)

text \<open>Syncing the S6 store from a lower store fails with \<open>NoResponse\<close>; syncing a store
  with another genesis block from it fails with \<open>NoSyncPoint\<close>.\<close>

theorem send_sync_errors_witness:
  "send_sync sym_hasher s6_a other_genesis = Some (s6_a, Inl NoResponse) \<and>
   send_sync sym_hasher other_genesis s6_a = Some (other_genesis, Inl NoSyncPoint)"
proof -
  have h: "height other_genesis = 1" "chain_of other_genesis = [test_block 5 ZeroHash (Genesis [])]"
    by (simp_all add: other_genesis_def chain_new_def chain_of_def)
  have "send_sync sym_hasher s6_a other_genesis = Some (s6_a, Inl NoResponse)"
    using send_sync_errors [OF s6_inv(1) other_genesis_inv] h s6_chains by simp
  moreover have "send_sync sym_hasher other_genesis s6_a = Some (other_genesis, Inl NoSyncPoint)"
    using send_sync_errors [OF other_genesis_inv s6_inv(1)] h s6_chains
    by (simp add: block_hash_def sym_hasher_def test_block_def s5_genesis_def)
  ultimately show ?thesis by blast
qed

text \<open>The S6 responder's second block sent as the only block from fork index 2 crashes
  the S6 initiator.\<close>

theorem on_response_bad_block_panics_witness:
  "on_response sym_hasher s6_a \<lparr>sync_height = 3, block_buffer = []\<rparr>
     (Some (Found \<lparr>fork_index = 2, sync_block = s6_b2, remaining = 0\<rparr>)) = Inl None"
  using on_response_bad_block_panics [OF s6_inv(1), of "\<lparr>fork_index = 2, sync_block = s6_b2, remaining = 0\<rparr>"
          "\<lparr>sync_height = 3, block_buffer = []\<rparr>"] s6_chains s6_hashes
  by simp

end
