(* ===== verification/Node.thy ===== *)
theory Node
  imports Tally Sync
begin

text \<open>
  The node around the chain store: the census of \<open>src/node/src/census.rs\<close>, the
  sync behaviour of \<open>protocols/chain_sync/behaviour.rs\<close> (its peer set, its event
  queue, the heartbeat and \<open>try_resolve\<close>), the connection handler of
  \<open>protocols/chain_sync/handler.rs\<close> (its event queue and the two sync futures),
  and the two arms of the event loop in \<open>main.rs\<close> that change the store: the
  gossip ballot handler and the delay arm with its test-append loop. The swarm and
  the futures are not modelled: a future is represented by whether it is running,
  and the work it does is \<open>send_sync\<close> and \<open>recv_sync\<close> of the theory \<open>Sync\<close>. Peer
  ids are naturals; the random draws of the heartbeat, of
  \<open>DelegationGraph::random\<close> and of the test-append loop are inputs. The lemmas show
  which ballots the gossip handler lets into the store, that it keeps the store
  valid and loses no ballot, that the test-append loop appends one block per
  iteration, and in which order the two event queues deliver their events.
\<close>

section \<open>Census\<close>

text \<open>\<open>struct DumbCensus\<close>: its \<open>HashSet\<close> of keys as a list without duplicates, in
  one of its iteration orders.\<close>

record census =
  census_keys :: "vkey list"

text \<open>\<open>DumbCensus::new\<close>: insert the verifying key of every key file of
  \<open>./temp/identities/\<close>, in the order \<open>read_dir\<close> lists them; the listing and the
  keys the files hold are the input, the reading itself is I/O.\<close>

definition census_new :: "signing_key list \<Rightarrow> census" where
  "census_new files = \<lparr>census_keys = fold (\<lambda>sk ks. List.insert (verifying_key sk) ks) files []\<rparr>"

text \<open>\<open>DumbCensus::from_vec\<close>.\<close>

definition census_from_vec :: "vkey list \<Rightarrow> census" where
  "census_from_vec input = \<lparr>census_keys = fold List.insert input []\<rparr>"

text \<open>\<open>DumbCensus::as_vec\<close>.\<close>

definition census_as_vec :: "census \<Rightarrow> vkey list" where
  "census_as_vec c = census_keys c"

text \<open>\<open>DumbCensus::contains_voter\<close>.\<close>

definition contains_voter :: "census \<Rightarrow> vkey \<Rightarrow> bool" where
  "contains_voter c k \<longleftrightarrow> k \<in> set (census_keys c)"

section \<open>The sync behaviour\<close>

type_synonym peer = nat

text \<open>The only event the behaviour emits: \<open>ToSwarm::NotifyHandler\<close> carrying
  \<open>InEvent::ForceSync\<close> for a peer.\<close>

datatype to_swarm = NotifyHandler peer

text \<open>\<open>struct Behaviour\<close>: the \<open>VecDeque\<close> of events, front first, and the peer set;
  the chain handle is the store passed to the operations that use it.\<close>

record behaviour =
  events :: "to_swarm list"
  sync_peers :: "peer set"

text \<open>\<open>Behaviour::new\<close>.\<close>

definition behaviour_new :: behaviour where
  "behaviour_new = \<lparr>events = [], sync_peers = {}\<rparr>"

text \<open>\<open>Behaviour::force_sync\<close>: \<open>push_back\<close>.\<close>

definition force_sync :: "behaviour \<Rightarrow> peer \<Rightarrow> behaviour" where
  "force_sync b p = b\<lparr>events := events b @ [NotifyHandler p]\<rparr>"

text \<open>\<open>Behaviour::add_explicit_peer\<close>.\<close>

definition add_explicit_peer :: "behaviour \<Rightarrow> peer \<Rightarrow> behaviour" where
  "add_explicit_peer b p = b\<lparr>sync_peers := insert p (sync_peers b)\<rparr>"

text \<open>\<open>Behaviour::heartbeat\<close>: the peers are copied into a vector (in one iteration
  order of the set) and \<open>choose\<close> picks the one at the drawn index; with no peer
  nothing happens.\<close>

definition heartbeat :: "behaviour \<Rightarrow> nat \<Rightarrow> behaviour" where
  "heartbeat b r =
     (case sorted_list_of_set (sync_peers b) of
        [] \<Rightarrow> b
      | ps \<Rightarrow> force_sync b (ps ! (r mod length ps)))"

text \<open>The swarm events \<open>on_swarm_event\<close> distinguishes.\<close>

datatype swarm_event = ConnectionEstablished peer | ConnectionClosed peer | OtherSwarmEvent

text \<open>\<open>Behaviour::on_swarm_event\<close>.\<close>

definition on_swarm_event :: "behaviour \<Rightarrow> swarm_event \<Rightarrow> behaviour" where
  "on_swarm_event b e =
     (case e of
        ConnectionEstablished p \<Rightarrow> b\<lparr>sync_peers := insert p (sync_peers b)\<rparr>
      | ConnectionClosed p \<Rightarrow> b\<lparr>sync_peers := sync_peers b - {p}\<rparr>
      | OtherSwarmEvent \<Rightarrow> b)"

text \<open>\<open>Behaviour::poll\<close>: \<open>pop_back\<close> of the queue; on an empty queue a heartbeat tick
  (with its random draw) runs the heartbeat, and the poll is pending.\<close>

definition behaviour_poll :: "behaviour \<Rightarrow> nat option \<Rightarrow> to_swarm option \<times> behaviour" where
  "behaviour_poll b tick =
     (if events b \<noteq> [] then (Some (last (events b)), b\<lparr>events := butlast (events b)\<rparr>)
      else (None, case tick of None \<Rightarrow> b | Some r \<Rightarrow> heartbeat b r))"

text \<open>
  \<open>Behaviour::try_resolve\<close>: above height 4 the tally runs on a random delegation
  graph over the census. The outer \<open>None\<close> is a panic of the tally, \<open>Some None\<close> the
  answer "not ready".
\<close>

definition try_resolve ::
  "decryption_key \<Rightarrow> encryption_key \<Rightarrow> census \<Rightarrow> (nat \<Rightarrow> bool \<times> nat) \<Rightarrow> 'h blockchain \<Rightarrow> bool option option" where
  "try_resolve dk ek c rng s =
     (if 4 < height s then
        (case generate_vote_result dk ek s (random_graph (census_as_vec c) rng) of
           None \<Rightarrow> None
         | Some r \<Rightarrow> Some (Some r))
      else Some None)"

section \<open>The connection handler\<close>

text \<open>\<open>InEvent\<close> and the event the handler emits (an outbound substream request).\<close>

datatype in_event = ForceSync

datatype handler_event = OutboundSubstreamRequest

text \<open>\<open>struct Handler\<close>: the event queue, front first, and whether an inbound
  (\<open>recv_sync\<close>) and an outbound (\<open>send_sync\<close>) future is running.\<close>

record handler =
  handler_events :: "handler_event list"
  inbound :: bool
  outbound :: bool

text \<open>\<open>Handler::new\<close>.\<close>

definition handler_new :: handler where
  "handler_new = \<lparr>handler_events = [], inbound = False, outbound = False\<rparr>"

text \<open>\<open>Handler::on_behaviour_event\<close>: \<open>push_back\<close> of a substream request.\<close>

definition on_behaviour_event :: "handler \<Rightarrow> in_event \<Rightarrow> handler" where
  "on_behaviour_event h e =
     (case e of ForceSync \<Rightarrow> h\<lparr>handler_events := handler_events h @ [OutboundSubstreamRequest]\<rparr>)"

text \<open>The connection events \<open>on_connection_event\<close> distinguishes.\<close>

datatype connection_event =
  FullyNegotiatedInbound | FullyNegotiatedOutbound | DialUpgradeError | OtherConnectionEvent

text \<open>\<open>Handler::on_connection_event\<close>: a negotiated stream starts a new future,
  replacing (and dropping) a running one.\<close>

definition on_connection_event :: "handler \<Rightarrow> connection_event \<Rightarrow> handler" where
  "on_connection_event h e =
     (case e of
        FullyNegotiatedInbound \<Rightarrow> h\<lparr>inbound := True\<rparr>
      | FullyNegotiatedOutbound \<Rightarrow> h\<lparr>outbound := True\<rparr>
      | _ \<Rightarrow> h)"

text \<open>\<open>Handler::poll\<close>: \<open>pop_front\<close> of the queue; otherwise each running future that
  is ready (the two inputs) is cleared, whatever its result, and the poll is
  pending.\<close>

definition handler_poll :: "handler \<Rightarrow> bool \<Rightarrow> bool \<Rightarrow> handler_event option \<times> handler" where
  "handler_poll h in_ready out_ready =
     (case handler_events h of
        e # es \<Rightarrow> (Some e, h\<lparr>handler_events := es\<rparr>)
      | [] \<Rightarrow> (None, h\<lparr>inbound := inbound h \<and> \<not> in_ready, outbound := outbound h \<and> \<not> out_ready\<rparr>))"

section \<open>The gossip ballot handler\<close>

text \<open>What the handler of a gossip message does with it.\<close>

datatype gossip_outcome = InvalidBallot | RejectedBallot | Resolved "bool option"

text \<open>
  The \<open>Gossipsub::Message\<close> arm of the event loop of \<open>main.rs\<close>: a message that does
  not deserialise (\<open>None\<close>) is skipped; a ballot with an invalid signature or from
  a key outside the census is rejected; otherwise it is pooled through
  \<open>Behaviour::pool_ballot\<close> (whose result is ignored) and \<open>try_resolve\<close> runs.
  \<open>None\<close>: the mining of \<open>pool_ballot\<close> has not returned, or the tally panicked.
\<close>

definition on_gossip_message ::
  "'h hasher \<Rightarrow> sig_scheme \<Rightarrow> (ballot \<Rightarrow> bytes) \<Rightarrow> census \<Rightarrow> decryption_key \<Rightarrow> encryption_key \<Rightarrow>
   (nat \<Rightarrow> bool \<times> nat) \<Rightarrow> nat \<Rightarrow> bytes list \<Rightarrow> 'h blockchain \<Rightarrow> signed_ballot option \<Rightarrow>
   ('h blockchain \<times> gossip_outcome) option" where
  "on_gossip_message H S ser c dk ek rng now draws s msg =
     (case msg of
        None \<Rightarrow> Some (s, InvalidBallot)
      | Some b \<Rightarrow>
          if \<not> signature_valid S ser b \<or> \<not> contains_voter c (signer b) then Some (s, RejectedBallot)
          else
            (case pool_ballot H S s now draws b of
               None \<Rightarrow> None
             | Some (s', _) \<Rightarrow>
                 (case try_resolve dk ek c rng s' of
                    None \<Rightarrow> None
                  | Some r \<Rightarrow> Some (s', Resolved r))))"

text \<open>The ballots a store holds, in its pool and on its chain.\<close>

definition store_ballots :: "'h blockchain \<Rightarrow> signed_ballot set" where
  "store_ballots s = set (ballot_pool s) \<union> set (chain_ballots s)"

text \<open>A node that only receives gossip: opened on an empty table, which receives the
  mined genesis block (\<open>Blockchain::new\<close> with \<open>Block::genesis\<close>), then handling
  gossip messages one after another.\<close>

inductive gossip_reachable ::
  "'h hasher \<Rightarrow> sig_scheme \<Rightarrow> (ballot \<Rightarrow> bytes) \<Rightarrow> census \<Rightarrow> 'h blockchain \<Rightarrow> bool"
  for H S ser c where
  gossip_open: "block_genesis H S gk draws = Some g \<Longrightarrow> gossip_reachable H S ser c (chain_new H g [] sk)"
| gossip_next: "gossip_reachable H S ser c s \<Longrightarrow>
    on_gossip_message H S ser c dk ek rng now draws s msg = Some (s', out) \<Longrightarrow>
    gossip_reachable H S ser c s'"

section \<open>The delay branch of the event loop\<close>

text \<open>The random inputs of one iteration of the test-append loop: the clock and the
  encryption randomness of \<open>Ballot::new\<close>, the clock of \<open>Block::new\<close> and its nonce
  tape.\<close>

record append_draw =
  ballot_time :: int
  enc_r1 :: int
  enc_r2 :: int
  block_time :: nat
  nonce_tape :: "bytes list"

text \<open>The ballot each iteration signs: \<open>Signed::new(&signing_key, Ballot::new(&ek,
  true, "test"))\<close>.\<close>

definition test_ballot :: "sig_scheme \<Rightarrow> (ballot \<Rightarrow> bytes) \<Rightarrow> encryption_key \<Rightarrow> signing_key \<Rightarrow> append_draw \<Rightarrow> signed_ballot" where
  "test_ballot S ser ek sk d = signed_new S ser sk (ballot_new ek True ''test'' (ballot_time d) (enc_r1 d) (enc_r2 d))"

text \<open>
  The loop \<open>for height in start_h..(start_h + test_append)\<close>: read the block at
  \<open>height\<close> (an error leaves \<open>main\<close> through \<open>?\<close>, the value \<open>Inl\<close>), mine a block
  with one test ballot on it (\<open>None\<close>: the proof of work has not returned) and
  append it, printing and ignoring a failed append.
\<close>

fun test_append_loop ::
  "'h hasher \<Rightarrow> sig_scheme \<Rightarrow> (ballot \<Rightarrow> bytes) \<Rightarrow> encryption_key \<Rightarrow> signing_key \<Rightarrow> (nat \<Rightarrow> append_draw) \<Rightarrow>
   nat \<Rightarrow> nat \<Rightarrow> 'h blockchain \<Rightarrow> (error + 'h blockchain) option" where
  "test_append_loop H S ser ek sk rnd h 0 s = Some (Inr s)"
| "test_append_loop H S ser ek sk rnd h (Suc k) s =
     (case get_block s h of
        Inl e \<Rightarrow> Some (Inl e)
      | Inr prev \<Rightarrow>
          (case block_new H S sk (block_time (rnd h)) prev [test_ballot S ser ek sk (rnd h)] (nonce_tape (rnd h)) of
             None \<Rightarrow> None
           | Some blk \<Rightarrow>
               test_append_loop H S ser ek sk rnd (Suc h) k (case append H s blk of Inl _ \<Rightarrow> s | Inr s' \<Rightarrow> s')))"

text \<open>
  The \<open>delay\<close> arm of the event loop (it fires once, five seconds after start): a
  sync is forced with the first connected peer, if any, and unless
  \<open>--test-append\<close> is 0 the loop above runs from the current height.
\<close>

definition on_delay ::
  "'h hasher \<Rightarrow> sig_scheme \<Rightarrow> (ballot \<Rightarrow> bytes) \<Rightarrow> encryption_key \<Rightarrow> signing_key \<Rightarrow> (nat \<Rightarrow> append_draw) \<Rightarrow>
   peer list \<Rightarrow> nat \<Rightarrow> behaviour \<Rightarrow> 'h blockchain \<Rightarrow> (error + behaviour \<times> 'h blockchain) option" where
  "on_delay H S ser ek sk rnd connected test_append b s =
     (let b' = (case connected of [] \<Rightarrow> b | p # _ \<Rightarrow> force_sync b p)
      in if test_append = 0 then Some (Inr (b', s))
         else (case test_append_loop H S ser ek sk rnd (height s) test_append s of
                 None \<Rightarrow> None
               | Some (Inl e) \<Rightarrow> Some (Inl e)
               | Some (Inr s') \<Rightarrow> Some (Inr (b', s'))))"

section \<open>Lemmas\<close>

lemma set_fold_insert: "set (fold List.insert xs ys) = set xs \<union> set ys"
  by (induction xs arbitrary: ys) auto

lemma distinct_fold_insert: "distinct ys \<Longrightarrow> distinct (fold List.insert xs ys)"
  by (induction xs arbitrary: ys) auto

lemma try_resolve_Some:
  assumes "chain_inv H s"
  shows "\<exists>r. try_resolve dk ek c rng s = Some r"
  using blocks_lookups [OF assms]
  by (auto simp: try_resolve_def generate_vote_result_def blocks_def split: prod.splits)

lemma on_gossip_message_accept:
  assumes inv: "chain_inv H s" and ok: "signature_valid S ser b" "contains_voter c (signer b)"
    and p: "pool_ballot H S s now draws b = Some (s1, e)"
  shows "\<exists>r. on_gossip_message H S ser c dk ek rng now draws s (Some b) = Some (s1, Resolved r)"
proof -
  obtain r where "try_resolve dk ek c rng s1 = Some r"
    using try_resolve_Some [OF pool_ballot_inv [OF inv p]] by blast
  then show ?thesis using ok p by (simp add: on_gossip_message_def)
qed

lemma test_append_step:
  assumes inv: "chain_inv H s"
    and blk: "block_new H S sk (block_time (rnd (height s))) (last (chain_of s)) [test_ballot S ser ek sk (rnd (height s))]
                (nonce_tape (rnd (height s))) = Some blk"
  shows "\<exists>s1. test_append_loop H S ser ek sk rnd (height s) (Suc k) s = test_append_loop H S ser ek sk rnd (height s1) k s1 \<and>
           chain_inv H s1 \<and> chain_of s1 = chain_of s @ [blk] \<and> get_ballots blk = Some [test_ballot S ser ek sk (rnd (height s))]"
proof -
  have v: "is_valid H blk (last (chain_of s))" and g: "get_ballots blk = Some [test_ballot S ser ek sk (rnd (height s))]"
    using blk by (auto simp: block_new_def is_valid_def Let_def split: option.splits)
  obtain s1 where a: "append H s blk = Inr s1" using append_eq [OF inv, of blk] v by simp
  have s1: "chain_inv H s1 \<and> chain_of s1 = chain_of s @ [blk]" by (rule append_Inr [OF inv a])
  then have h1: "height s1 = Suc (height s)" by (metis length_chain_of length_append_singleton)
  show ?thesis
    using s1 g a blk get_block_head [OF inv] h1 by (intro exI [of _ s1]) simp
qed

lemma store_ballots_pool_ballot:
  assumes inv: "chain_inv H s" and ok: "pool_ballot H S s now draws b = Some (s', r)"
  shows "store_ballots s' = insert b (store_ballots s)"
proof -
  have "set_mset (mset (ballot_pool s') + mset (chain_ballots s')) = set_mset (mset (ballot_pool s) + mset (chain_ballots s) + {#b#})"
    using pool_ballot_mset [OF inv ok] by simp
  then show ?thesis by (auto simp: store_ballots_def)
qed

lemma on_gossip_message_Some:
  assumes inv: "chain_inv H s" and ok: "on_gossip_message H S ser c dk ek rng now draws s msg = Some (s', out)"
  shows "chain_inv H s' \<and>
         (s' = s \<and> out \<in> {InvalidBallot, RejectedBallot} \<or>
          (\<exists>b. msg = Some b \<and> signature_valid S ser b \<and> contains_voter c (signer b) \<and>
               store_ballots s' = insert b (store_ballots s) \<and>
               mset (ballot_pool s') + mset (chain_ballots s') = mset (ballot_pool s) + mset (chain_ballots s) + {#b#}))"
proof (cases msg)
  case None
  then show ?thesis using ok inv by (simp add: on_gossip_message_def)
next
  case (Some b)
  show ?thesis
  proof (cases "\<not> signature_valid S ser b \<or> \<not> contains_voter c (signer b)")
    case True
    then show ?thesis using ok inv Some by (auto simp: on_gossip_message_def)
  next
    case False
    then obtain s1 r where p: "pool_ballot H S s now draws b = Some (s1, r)" and s1: "s' = s1"
      using ok Some by (auto simp: on_gossip_message_def split: option.splits)
    show ?thesis
      using False Some pool_ballot_inv [OF inv p] store_ballots_pool_ballot [OF inv p] pool_ballot_mset [OF inv p] s1
      by blast
  qed
qed

lemma block_genesis_no_ballots: "block_genesis H S gk draws = Some g \<Longrightarrow> ballots_of g = []"
  by (auto simp: block_genesis_def ballots_of_def split: option.splits)

text \<open>
  C5. Only checked ballots enter a gossip-fed store: in every store reachable from
  a freshly opened one (genesis block mined by \<open>Block::genesis\<close>) by gossip
  messages, the chain invariant holds and every ballot in the pool or on the chain
  carries a valid signature by a census member. Ballots that arrive in blocks
  through a sync are not checked by anyone.
\<close>

theorem gossip_ballots_checked:
  assumes "gossip_reachable H S ser c s"
  shows "chain_inv H s \<and> (\<forall>sb\<in>store_ballots s. signature_valid S ser sb \<and> contains_voter c (signer sb))"
  using assms
proof induction
  case (gossip_open gk draws g sk)
  have "ballots_of g = []" by (rule block_genesis_no_ballots [OF gossip_open])
  moreover have "chain_ballots (chain_new H g [] sk) = ballots_of g"
    by (simp add: chain_new_def chain_ballots_def chain_of_def)
  ultimately show ?case
    using chain_new_inv [of H g sk] by (simp add: store_ballots_def chain_new_def)
next
  case (gossip_next s dk ek rng now draws msg s' out)
  then show ?case using on_gossip_message_Some [of H s S ser c dk ek rng now draws msg s' out] by auto
qed

text \<open>
  C27. The behaviour's event queue is served last in, first out: \<open>force_sync\<close>
  pushes at the back and \<open>poll\<close> pops from the back, so of two sync requests the
  later one is delivered first (the handler's queue, by contrast, pops from the
  front).
\<close>

theorem behaviour_poll_lifo:
  assumes "events b = []"
  shows "behaviour_poll (force_sync (force_sync b p) q) tick = (Some (NotifyHandler q), force_sync b p)"
  using assms by (simp add: behaviour_poll_def force_sync_def)

text \<open>
  C26. The heartbeat syncs with a current peer: it leaves the peer set alone, and it
  either does nothing, which happens exactly when there is no peer, or queues a
  sync request for a member of the peer set.
\<close>

theorem heartbeat_targets_peer:
  assumes fin: "finite (sync_peers b)"
  shows "sync_peers (heartbeat b r) = sync_peers b \<and>
         (heartbeat b r = b \<longleftrightarrow> sync_peers b = {}) \<and>
         (sync_peers b \<noteq> {} \<longrightarrow> (\<exists>p\<in>sync_peers b. heartbeat b r = force_sync b p))"
proof (cases "sync_peers b = {}")
  case True
  then show ?thesis by (simp add: heartbeat_def)
next
  case False
  then obtain p ps where ps: "sorted_list_of_set (sync_peers b) = p # ps"
    using fin by (cases "sorted_list_of_set (sync_peers b)") auto
  let ?q = "(p # ps) ! (r mod length (p # ps))"
  have "?q \<in> set (p # ps)" by (rule nth_mem) simp
  then have q: "?q \<in> sync_peers b" using ps fin by (metis set_sorted_list_of_set)
  have "force_sync b ?q \<noteq> b"
  proof
    assume "force_sync b ?q = b"
    then have "events (force_sync b ?q) = events b" by simp
    then show False by (simp add: force_sync_def)
  qed
  then show ?thesis
    using False q ps by (auto simp: heartbeat_def force_sync_def)
qed


text \<open>
  C29. The test-append loop of the delay arm extends the chain by one block per
  iteration: on a valid store, when the proof of work of each iteration returns
  (on whatever block it builds on), the loop returns no error and its store is
  valid and holds the old chain followed by \<open>test_append\<close> new blocks, the block of
  iteration \<open>i\<close> carrying the one test ballot signed in it.
\<close>

theorem test_append_extends:
  assumes inv: "chain_inv H s"
    and mine: "\<And>h prev. block_new H S sk (block_time (rnd h)) prev [test_ballot S ser ek sk (rnd h)] (nonce_tape (rnd h)) \<noteq> None"
  shows "\<exists>bs s'. test_append_loop H S ser ek sk rnd (height s) k s = Some (Inr s') \<and> chain_inv H s' \<and>
           chain_of s' = chain_of s @ bs \<and>
           map get_ballots bs = map (\<lambda>i. Some [test_ballot S ser ek sk (rnd (height s + i))]) [0..<k]"
  using inv
proof (induction k arbitrary: s)
  case 0
  then show ?case by simp
next
  case (Suc k)
  obtain blk where blk: "block_new H S sk (block_time (rnd (height s))) (last (chain_of s))
      [test_ballot S ser ek sk (rnd (height s))] (nonce_tape (rnd (height s))) = Some blk"
    using mine by blast
  obtain s1 where st: "test_append_loop H S ser ek sk rnd (height s) (Suc k) s = test_append_loop H S ser ek sk rnd (height s1) k s1"
    and i1: "chain_inv H s1" and c1: "chain_of s1 = chain_of s @ [blk]"
    and g: "get_ballots blk = Some [test_ballot S ser ek sk (rnd (height s))]"
    using test_append_step [of H s S sk rnd ser ek blk k, OF Suc.prems blk] by blast
  have h1: "height s1 = Suc (height s)" using c1 by (metis length_chain_of length_append_singleton)
  obtain bs s' where r: "test_append_loop H S ser ek sk rnd (height s1) k s1 = Some (Inr s')" "chain_inv H s'"
    "chain_of s' = chain_of s1 @ bs"
    "map get_ballots bs = map (\<lambda>i. Some [test_ballot S ser ek sk (rnd (height s1 + i))]) [0..<k]"
    using Suc.IH [OF i1] by blast
  have m: "map get_ballots (blk # bs) = map (\<lambda>i. Some [test_ballot S ser ek sk (rnd (height s + i))]) [0..<Suc k]"
    using g r(4) h1 by (simp add: upt_conv_Cons map_Suc_upt [symmetric] del: upt_Suc)
  have l: "test_append_loop H S ser ek sk rnd (height s) (Suc k) s = Some (Inr s')"
    using st r(1) by (rule trans)
  have "chain_of s' = chain_of s @ (blk # bs)" using r(3) c1 by simp
  then show ?case using l r(2) m by blast
qed

section \<open>Witnesses\<close>

lemma genesis_mined:
  "block_genesis sym_hasher echo_scheme (SigningKey 0) [replicate 8 0] =
     Some (test_block 0 ZeroHash (Genesis [])\<lparr>block_signature := replicate 8 0 @ replicate 24 0, nonce := replicate 8 0\<rparr>)"
  by (simp add: block_genesis_def echo_scheme_def sym_hasher_def pow_adjusted_def test_block_def numeral_eq_Suc)

text \<open>A store opened on a mined genesis block receives a ballot of census member 1,
  signed under the echo scheme with the empty serialisation.\<close>

theorem gossip_ballots_checked_witness:
  "\<exists>s. gossip_reachable sym_hasher echo_scheme (\<lambda>_. []) (census_from_vec [1]) s \<and>
       test_vote 1 True 1 \<in> store_ballots s \<and> chain_inv sym_hasher s \<and>
       signature_valid echo_scheme (\<lambda>_. []) (test_vote 1 True 1) \<and>
       contains_voter (census_from_vec [1]) (signer (test_vote 1 True 1))"
proof -
  let ?g = "test_block 0 ZeroHash (Genesis [])\<lparr>block_signature := replicate 8 0 @ replicate 24 0, nonce := replicate 8 0\<rparr>"
  let ?s0 = "chain_new sym_hasher ?g [] (SigningKey 0)"
  have r0: "gossip_reachable sym_hasher echo_scheme (\<lambda>_. []) (census_from_vec [1]) ?s0"
    by (rule gossip_open [OF genesis_mined])
  have step: "on_gossip_message sym_hasher echo_scheme (\<lambda>_. []) (census_from_vec [1]) \<lparr>dk_n = 7\<rparr> \<lparr>ek_n = 7\<rparr>
                (\<lambda>_. (False, 0)) 0 [] ?s0 (Some (test_vote 1 True 1))
              = Some (?s0\<lparr>ballot_pool := [test_vote 1 True 1]\<rparr>, Resolved None)"
    by (simp add: on_gossip_message_def signature_valid_def echo_scheme_def test_vote_def contains_voter_def
                  census_from_vec_def pool_ballot_def block_size_def try_resolve_def chain_new_def)
  have r1: "gossip_reachable sym_hasher echo_scheme (\<lambda>_. []) (census_from_vec [1]) (?s0\<lparr>ballot_pool := [test_vote 1 True 1]\<rparr>)"
    by (rule gossip_next [OF r0 step])
  have m: "test_vote 1 True 1 \<in> store_ballots (?s0\<lparr>ballot_pool := [test_vote 1 True 1]\<rparr>)"
    by (simp add: store_ballots_def)
  show ?thesis
    using gossip_ballots_checked [OF r1] r1 m by blast
qed

theorem behaviour_poll_lifo_witness:
  "behaviour_poll (force_sync (force_sync behaviour_new 1) 2) None =
     (Some (NotifyHandler 2), force_sync behaviour_new 1)"
  using behaviour_poll_lifo [of behaviour_new 1 2 None] by (simp add: behaviour_new_def)

theorem heartbeat_targets_peer_witness:
  "heartbeat (add_explicit_peer behaviour_new 7) 3 = force_sync (add_explicit_peer behaviour_new 7) 7"
proof -
  have fin: "finite (sync_peers (add_explicit_peer behaviour_new 7))"
    by (simp add: add_explicit_peer_def behaviour_new_def)
  have "\<exists>p\<in>sync_peers (add_explicit_peer behaviour_new 7).
          heartbeat (add_explicit_peer behaviour_new 7) 3 = force_sync (add_explicit_peer behaviour_new 7) p"
    using heartbeat_targets_peer [OF fin, of 3] by (simp add: add_explicit_peer_def behaviour_new_def)
  then show ?thesis by (simp add: add_explicit_peer_def behaviour_new_def)
qed


text \<open>Two test appends on a node opened on \<open>G\<close>, under a scheme whose signatures
  always pass the proof of work.\<close>

theorem test_append_extends_witness:
  "chain_inv sym_hasher (chain_new sym_hasher s5_genesis [] (SigningKey 0)) \<and>
   (\<forall>h prev. block_new sym_hasher \<lparr>sch_sign = (\<lambda>sk m. [0, 0]), sch_verify = (\<lambda>vk m s. True)\<rparr> (SigningKey 0) 1 prev
       [test_ballot \<lparr>sch_sign = (\<lambda>sk m. [0, 0]), sch_verify = (\<lambda>vk m s. True)\<rparr> (\<lambda>_. []) \<lparr>ek_n = 7\<rparr> (SigningKey 0)
          \<lparr>ballot_time = 1, enc_r1 = 1, enc_r2 = 1, block_time = 1, nonce_tape = [replicate 8 0]\<rparr>]
       [replicate 8 0] \<noteq> None) \<and>
   (\<exists>bs s'. test_append_loop sym_hasher \<lparr>sch_sign = (\<lambda>sk m. [0, 0]), sch_verify = (\<lambda>vk m s. True)\<rparr> (\<lambda>_. []) \<lparr>ek_n = 7\<rparr>
        (SigningKey 0) (\<lambda>_. \<lparr>ballot_time = 1, enc_r1 = 1, enc_r2 = 1, block_time = 1, nonce_tape = [replicate 8 0]\<rparr>) 1 2
        (chain_new sym_hasher s5_genesis [] (SigningKey 0)) = Some (Inr s') \<and>
      chain_inv sym_hasher s' \<and> chain_of s' = s5_genesis # bs \<and> length bs = 2)"
proof -
  let ?Z = "\<lparr>sch_sign = (\<lambda>sk m. [0, 0]), sch_verify = (\<lambda>vk m s. True)\<rparr>"
  let ?D = "\<lparr>ballot_time = 1, enc_r1 = 1, enc_r2 = 1, block_time = 1, nonce_tape = [replicate 8 0]\<rparr>"
  let ?s0 = "chain_new sym_hasher s5_genesis [] (SigningKey 0)"
  have i: "chain_inv sym_hasher ?s0" by (rule chain_new_inv)
  have m: "block_new sym_hasher ?Z (SigningKey 0) (block_time ((\<lambda>_. ?D) h)) prev
             [test_ballot ?Z (\<lambda>_. []) \<lparr>ek_n = 7\<rparr> (SigningKey 0) ((\<lambda>_. ?D) h)] (nonce_tape ((\<lambda>_. ?D) h)) \<noteq> None"
    for h :: nat and prev :: "sym_hash block"
    by (simp add: block_new_def Let_def)
  have h0: "height ?s0 = 1" and c0: "chain_of ?s0 = [s5_genesis]"
    by (simp_all add: chain_new_def chain_of_def)
  obtain bs s' where r: "test_append_loop sym_hasher ?Z (\<lambda>_. []) \<lparr>ek_n = 7\<rparr> (SigningKey 0) (\<lambda>_. ?D) (height ?s0) 2 ?s0 = Some (Inr s')"
    "chain_inv sym_hasher s'" "chain_of s' = chain_of ?s0 @ bs"
    "map get_ballots bs = map (\<lambda>i. Some [test_ballot ?Z (\<lambda>_. []) \<lparr>ek_n = 7\<rparr> (SigningKey 0) ((\<lambda>_. ?D) (height ?s0 + i))]) [0..<2]"
    using test_append_extends [where H = sym_hasher and s = ?s0 and S = ?Z and sk = "SigningKey 0" and rnd = "\<lambda>_. ?D"
                                 and ser = "\<lambda>_. []" and ek = "\<lparr>ek_n = 7\<rparr>" and k = 2, OF i m] by blast
  have "length bs = 2" using arg_cong [OF r(4), of length] by simp
  then show ?thesis using i m r h0 c0 by auto
qed

end
