(* ===== verification/Startup.thy ===== *)
theory Startup
  imports Client Node
begin

text \<open>
  The start-up of a node, \<open>main\<close> of \<open>src/node/src/main.rs\<close> up to its event loop,
  with the command line of \<open>cli.rs\<close> and the store configuration of
  \<open>votechain/config.rs\<close>. What the start-up reads is an input: the parsed command
  line, the random issue id and the freshly generated key, the key files (a map
  from paths to keys, as in the theory \<open>Client\<close>), the key files of the identity
  directory in the order \<open>read_dir\<close> lists them, the LMDB tables by path, the
  nonce tape of the genesis block, whether the default port is free, and the
  trustee key file. A failed read that \<open>?\<close> propagates out of \<open>main\<close> and a
  panicking \<open>unwrap\<close> both end the node before its loop: the value \<open>None\<close>. The
  swarm construction, logging and the listening itself are I/O.
\<close>

section \<open>Configuration\<close>

text \<open>\<open>struct Cli\<close> (clap parses it; the parsed value is the input).\<close>

record cli =
  cli_config :: "string option"
  chain_postfix :: "string option"
  private_key :: "string option"
  test_append :: nat
  test_identity :: "nat option"

text \<open>\<open>struct BlockchainConfig\<close> and its default path.\<close>

record blockchain_config =
  chain_path :: string

definition blockchain_config_default :: blockchain_config where
  "blockchain_config_default = \<lparr>chain_path = ''./temp/blockchains/solochain''\<rparr>"

text \<open>\<open>static DEFAULT_PORT\<close> and the gossip topic the node subscribes to.\<close>

definition default_port :: nat where
  "default_port = 47474"

definition vote_topic :: string where
  "vote_topic = ''ballot-cast''"

text \<open>The port a node listens on: the default port for test identity 1 when it
  is free, otherwise a port the system picks (0).\<close>

definition node_port :: "bool \<Rightarrow> cli \<Rightarrow> nat" where
  "node_port bindable args =
     (if bindable then (if test_identity args = Some 1 then default_port else 0) else 0)"

section \<open>Start-up\<close>

text \<open>The state the event loop starts with.\<close>

record 'h node =
  node_issue :: string
  node_key :: signing_key
  node_census :: census
  node_chain :: "'h blockchain"
  node_addr :: string
  node_keys :: "encryption_key \<times> decryption_key"

text \<open>
  \<open>main\<close> before its loop: the issue id (\<open>--chain-postfix\<close>, else seven random
  characters), the signing key (the identity file of \<open>--test-identity\<close>, read with
  \<open>?\<close>, else a fresh key), the census, the store at the configured path joined
  with the issue id (\<open>Blockchain::new\<close>, which mines the genesis block with the key
  of \<open>default.der\<close> only when the table is empty; the genesis argument of
  \<open>chain_new\<close> is unused otherwise), the listen address and the trustee keys.
\<close>

definition node_start ::
  "'h hasher \<Rightarrow> sig_scheme \<Rightarrow> cli \<Rightarrow> string \<Rightarrow> signing_key \<Rightarrow> file_system \<Rightarrow> signing_key list \<Rightarrow>
   (string \<Rightarrow> (nat, 'h block) hashmap) \<Rightarrow> bytes list \<Rightarrow> bool \<Rightarrow> (encryption_key \<times> decryption_key) option \<Rightarrow>
   'h node option" where
  "node_start H S args random_issue fresh fs identities tables gd bindable trustees =
     (let issue_id = (case chain_postfix args of Some postfix \<Rightarrow> postfix | None \<Rightarrow> random_issue)
      in case (case test_identity args of Some identity \<Rightarrow> fs (identity_path identity) | None \<Rightarrow> Some fresh) of
           None \<Rightarrow> None
         | Some key \<Rightarrow>
             (let census = census_new identities;
                  stored = tables (path_join (chain_path blockchain_config_default) issue_id)
              in case (if stored = []
                       then (case fs ''./temp/identities/default.der'' of
                               None \<Rightarrow> None
                             | Some gk \<Rightarrow> map_option (\<lambda>g. chain_new H g [] key) (block_genesis H S gk gd))
                       else Some (chain_new H undefined stored key)) of
                   None \<Rightarrow> None
                 | Some chain \<Rightarrow>
                     (case trustees of
                        None \<Rightarrow> None
                      | Some keys \<Rightarrow>
                          Some \<lparr>node_issue = issue_id, node_key = key, node_census = census,
                                node_chain = chain,
                                node_addr = ''/ip4/0.0.0.0/tcp/'' @ nat_to_string (node_port bindable args),
                                node_keys = keys\<rparr>)))"

section \<open>Lemmas\<close>

lemma census_new_contains:
  "contains_voter (census_new identities) k \<longleftrightarrow> k \<in> verifying_key ` set identities"
proof -
  have "set (fold (\<lambda>sk ks. List.insert (verifying_key sk) ks) identities ks) = verifying_key ` set identities \<union> set ks" for ks
    by (induction identities arbitrary: ks) auto
  then show ?thesis by (simp add: contains_voter_def census_new_def)
qed

lemma node_start_fresh:
  assumes "node_start H S args random_issue fresh fs identities (\<lambda>_. []) gd bindable trustees = Some n"
  shows "chain_inv H (node_chain n) \<and> node_census n = census_new identities \<and> height (node_chain n) = 1"
  using assms chain_new_inv [of H _ "node_key n"]
  by (auto simp: node_start_def Let_def chain_new_def split: option.splits)

end
