(* ===== verification/Tests.thy ===== *)
theory Tests
  imports Node
begin

text \<open>
  The unit tests of the repository, stated over the model: each \<open>#[test]\<close>
  function is a definition whose value is the condition it asserts, so that a
  theorem that the definition holds says the model passes the test. What a test
  draws at random is an input: the keys \<open>get_test_census\<close> generates (a list of
  six keys, distinct when the generator is), the random nonces and the clock of
  \<open>Block::new\<close>; a test that mines returns \<open>None\<close> while its proof of work has not
  returned.
\<close>

section \<open>Delegation tests (\<open>trustee/delegations.rs\<close>)\<close>

text \<open>\<open>get_test_delegation\<close>: 0 and 2 delegate to 3, 1 to 2, 4 to 5.\<close>

definition test_delegation :: "'k list \<Rightarrow> 'k delegation_graph" where
  "test_delegation c =
     new_graph (AList.update (c ! 4) (c ! 5) (AList.update (c ! 2) (c ! 3)
       (AList.update (c ! 1) (c ! 2) (AList.update (c ! 0) (c ! 3) []))))"

text \<open>\<open>get_test_delegation_cyclic\<close>: the cycle 0, 1, 2, 3.\<close>

definition test_delegation_cyclic :: "'k list \<Rightarrow> 'k delegation_graph" where
  "test_delegation_cyclic c =
     new_graph (AList.update (c ! 3) (c ! 0) (AList.update (c ! 2) (c ! 3)
       (AList.update (c ! 1) (c ! 2) (AList.update (c ! 0) (c ! 1) []))))"

text \<open>\<open>test_power_resolve\<close>.\<close>

definition test_power_resolve :: "'k list \<Rightarrow> bool" where
  "test_power_resolve c =
     (let g = test_delegation c; voters = {c ! 3, c ! 5}
      in resolve_power g (c ! 3) voters = 4 \<and> resolve_power g (c ! 5) voters = 2)"

text \<open>\<open>test_all_cast_weight\<close>: every value of the weight map is 1 (its keys are the
  voters).\<close>

definition test_all_cast_weight :: "'k list \<Rightarrow> bool" where
  "test_all_cast_weight c =
     (let g = test_delegation c
      in list_all (\<lambda>v. generate_weights g c v = Some 1) c)"

text \<open>\<open>test_mixed_cast_weight\<close>.\<close>

definition test_mixed_cast_weight :: "'k list \<Rightarrow> bool" where
  "test_mixed_cast_weight c =
     (let g = test_delegation c
      in generate_weights g [c ! 3, c ! 5] = [c ! 3 \<mapsto> 4, c ! 5 \<mapsto> 2])"

text \<open>\<open>test_mixed_cast_weight_extra\<close>.\<close>

definition test_mixed_cast_weight_extra :: "'k list \<Rightarrow> bool" where
  "test_mixed_cast_weight_extra c =
     (let g = test_delegation c
      in generate_weights g [c ! 3, c ! 5, c ! 1] = [c ! 3 \<mapsto> 3, c ! 5 \<mapsto> 2, c ! 1 \<mapsto> 1])"

text \<open>\<open>test_all_cast_weight_cyclic\<close>.\<close>

definition test_all_cast_weight_cyclic :: "'k list \<Rightarrow> bool" where
  "test_all_cast_weight_cyclic c =
     (let g = test_delegation_cyclic c
      in list_all (\<lambda>v. generate_weights g c v = Some 1) c)"

text \<open>\<open>test_mixed_cast_weight_cyclic\<close>.\<close>

definition test_mixed_cast_weight_cyclic :: "'k list \<Rightarrow> bool" where
  "test_mixed_cast_weight_cyclic c =
     (let g = test_delegation_cyclic c
      in generate_weights g [c ! 0, c ! 1] = [c ! 0 \<mapsto> 3, c ! 1 \<mapsto> 1])"

section \<open>Block and chain tests (\<open>votechain/block.rs\<close>, \<open>votechain/chain.rs\<close>)\<close>

text \<open>\<open>validates_correctly\<close>: a block mined on the genesis block is valid on it. The
  genesis block is mined by the key of \<open>default.der\<close> (\<open>gk\<close>) over the tape \<open>gd\<close>.\<close>

definition test_validates_correctly ::
  "'h hasher \<Rightarrow> sig_scheme \<Rightarrow> signing_key \<Rightarrow> bytes list \<Rightarrow> signing_key \<Rightarrow> nat \<Rightarrow> bytes list \<Rightarrow> bool option" where
  "test_validates_correctly H S gk gd sk t d =
     (case block_genesis H S gk gd of
        None \<Rightarrow> None
      | Some initial \<Rightarrow>
          (case block_new H S sk t initial [] d of
             None \<Rightarrow> None
           | Some block \<Rightarrow> Some (is_valid H block initial)))"

text \<open>\<open>empty_chain_valid\<close>.\<close>

definition test_empty_chain_valid :: "'h hasher \<Rightarrow> bool" where
  "test_empty_chain_valid H = is_valid_chain H []"

text \<open>\<open>valid_chain_validates\<close>: genesis, a block on it and a block on that.\<close>

definition test_valid_chain_validates ::
  "'h hasher \<Rightarrow> sig_scheme \<Rightarrow> signing_key \<Rightarrow> bytes list \<Rightarrow> signing_key \<Rightarrow> nat \<Rightarrow> bytes list \<Rightarrow> nat \<Rightarrow> bytes list \<Rightarrow>
   bool option" where
  "test_valid_chain_validates H S gk gd sk t1 d1 t2 d2 =
     (case block_genesis H S gk gd of
        None \<Rightarrow> None
      | Some genesis \<Rightarrow>
          (case block_new H S sk t1 genesis [] d1 of
             None \<Rightarrow> None
           | Some block1 \<Rightarrow>
               (case block_new H S sk t2 block1 [] d2 of
                  None \<Rightarrow> None
                | Some block2 \<Rightarrow> Some (is_valid_chain H [genesis, block1, block2]))))"

text \<open>\<open>invalid_chain_fails\<close>: both blocks mined on the genesis block; the test
  asserts that the chain is not valid.\<close>

definition test_invalid_chain_fails ::
  "'h hasher \<Rightarrow> sig_scheme \<Rightarrow> signing_key \<Rightarrow> bytes list \<Rightarrow> signing_key \<Rightarrow> nat \<Rightarrow> bytes list \<Rightarrow> nat \<Rightarrow> bytes list \<Rightarrow>
   bool option" where
  "test_invalid_chain_fails H S gk gd sk t1 d1 t2 d2 =
     (case block_genesis H S gk gd of
        None \<Rightarrow> None
      | Some genesis \<Rightarrow>
          (case block_new H S sk t1 genesis [] d1 of
             None \<Rightarrow> None
           | Some block1 \<Rightarrow>
               (case block_new H S sk t2 genesis [] d2 of
                  None \<Rightarrow> None
                | Some block2 \<Rightarrow> Some (\<not> is_valid_chain H [genesis, block1, block2]))))"

section \<open>Census and ballot tests (\<open>census.rs\<close>, \<open>lib.rs\<close>)\<close>

text \<open>\<open>test_contains_valid\<close>.\<close>

definition test_contains_valid :: "vkey \<Rightarrow> vkey \<Rightarrow> bool" where
  "test_contains_valid key1 key2 = contains_voter (census_from_vec [key1, key2]) key1"

text \<open>\<open>test_contains_invalid\<close>, marked \<open>#[should_panic]\<close>: the asserted condition,
  which must be false for the test to pass.\<close>

definition test_contains_invalid :: "vkey \<Rightarrow> vkey \<Rightarrow> vkey \<Rightarrow> bool" where
  "test_contains_invalid key1 key2 key3 = contains_voter (census_from_vec [key1, key2]) key3"

text \<open>\<open>ballot_build_correct\<close>.\<close>

definition test_ballot_build_correct :: "encryption_key \<Rightarrow> int \<Rightarrow> int \<Rightarrow> int \<Rightarrow> bool" where
  "test_ballot_build_correct ek now r1 r2 = validate_proofs (ballot_new ek True ''test'' now r1 r2)"

text \<open>\<open>signature_correct\<close>: sign the string \<open>test_data\<close> and verify it.\<close>

definition test_signature_correct :: "sig_scheme \<Rightarrow> (string \<Rightarrow> bytes) \<Rightarrow> signing_key \<Rightarrow> bool" where
  "test_signature_correct S ser sk = signature_valid S ser (signed_new S ser sk ''test_data'')"

section \<open>Lemmas\<close>

lemma six_keys:
  assumes "length c = 6"
  obtains k0 k1 k2 k3 k4 k5 where "c = [k0, k1, k2, k3, k4, k5]"
proof -
  from assms obtain k0 c1 where "c = k0 # c1" "length c1 = 5" by (cases c) auto
  moreover from this(2) obtain k1 c2 where "c1 = k1 # c2" "length c2 = 4" by (cases c1) auto
  moreover from this(2) obtain k2 c3 where "c2 = k2 # c3" "length c3 = 3" by (cases c2) auto
  moreover from this(2) obtain k3 c4 where "c3 = k3 # c4" "length c4 = 2" by (cases c3) auto
  moreover from this(2) obtain k4 c5 where "c4 = k4 # c5" "length c5 = 1" by (cases c4) auto
  moreover from this(2) obtain k5 where "c5 = [k5]" by (cases c5) auto
  ultimately show ?thesis using that by simp
qed

lemmas resolve_eval = resolve_power_def new_graph_def get_adj_list_def adj_insert_def children_def
  push_children_def resolve_loop.simps

lemma test_power_resolve_pass:
  "distinct [k0, k1, k2, k3, k4, (k5::'k)] \<Longrightarrow> test_power_resolve [k0, k1, k2, k3, k4, k5]"
  by (auto simp: test_power_resolve_def test_delegation_def resolve_eval insert_commute)

lemma test_all_cast_weight_pass:
  "distinct [k0, k1, k2, k3, k4, (k5::'k)] \<Longrightarrow> test_all_cast_weight [k0, k1, k2, k3, k4, k5]"
  by (auto simp: test_all_cast_weight_def test_delegation_def generate_weights_eq resolve_eval insert_commute)

lemma test_mixed_cast_weight_pass:
  "distinct [k0, k1, k2, k3, k4, (k5::'k)] \<Longrightarrow> test_mixed_cast_weight [k0, k1, k2, k3, k4, k5]"
  by (auto simp: test_mixed_cast_weight_def test_delegation_def generate_weights_eq resolve_eval insert_commute fun_eq_iff)

lemma test_mixed_cast_weight_extra_pass:
  "distinct [k0, k1, k2, k3, k4, (k5::'k)] \<Longrightarrow> test_mixed_cast_weight_extra [k0, k1, k2, k3, k4, k5]"
  by (auto simp: test_mixed_cast_weight_extra_def test_delegation_def generate_weights_eq resolve_eval insert_commute fun_eq_iff)

lemma test_all_cast_weight_cyclic_pass:
  "distinct [k0, k1, k2, k3, k4, (k5::'k)] \<Longrightarrow> test_all_cast_weight_cyclic [k0, k1, k2, k3, k4, k5]"
  by (auto simp: test_all_cast_weight_cyclic_def test_delegation_cyclic_def generate_weights_eq resolve_eval insert_commute)

lemma test_mixed_cast_weight_cyclic_pass:
  "distinct [k0, k1, k2, k3, k4, (k5::'k)] \<Longrightarrow> test_mixed_cast_weight_cyclic [k0, k1, k2, k3, k4, k5]"
  by (auto simp: test_mixed_cast_weight_cyclic_def test_delegation_cyclic_def generate_weights_eq resolve_eval insert_commute fun_eq_iff)

lemma block_new_on:
  "block_new H S sk t prev bs d = Some b \<Longrightarrow> previous_hash b = block_hash H prev \<and> block_content b = Ballots bs"
  by (auto simp: block_new_def Let_def split: option.splits)

lemma block_genesis_prev:
  "block_genesis H S gk gd = Some g \<Longrightarrow> previous_hash g = zero_hash H"
  by (auto simp: block_genesis_def split: option.splits)

text \<open>
  C38. The model passes the delegation tests of \<open>delegations.rs\<close>: for every six
  distinct keys \<open>get_test_census\<close> may generate, the powers and weight maps of the
  two test graphs (the tree and the four-cycle) are the ones the six tests assert.
\<close>

theorem delegation_tests_pass:
  assumes "distinct c" and "length c = 6"
  shows "test_power_resolve c \<and> test_all_cast_weight c \<and> test_mixed_cast_weight c \<and>
         test_mixed_cast_weight_extra c \<and> test_all_cast_weight_cyclic c \<and> test_mixed_cast_weight_cyclic c"
proof -
  obtain k0 k1 k2 k3 k4 k5 where c: "c = [k0, k1, k2, k3, k4, k5]" using six_keys [OF assms(2)] by blast
  show ?thesis
    using assms(1) unfolding c
    by (simp only: test_power_resolve_pass test_all_cast_weight_pass test_mixed_cast_weight_pass
                   test_mixed_cast_weight_extra_pass test_all_cast_weight_cyclic_pass
                   test_mixed_cast_weight_cyclic_pass)
qed

text \<open>
  C39. The block and chain tests cannot fail: whatever the hasher, the signature
  scheme, the keys, the clock and the nonces, \<open>validates_correctly\<close>,
  \<open>empty_chain_valid\<close> and \<open>valid_chain_validates\<close> pass whenever their proofs of
  work return; \<open>invalid_chain_fails\<close> passes too when the digest binds the
  previous hash and the genesis block does not hash to the zero hash.
\<close>

theorem chain_tests_pass:
  assumes binds: "\<forall>t p xs t' p' xs'. digest H t p xs = digest H t' p' xs' \<longrightarrow> p = p'"
    and gz: "\<forall>g. block_genesis H S gk gd = Some g \<longrightarrow> block_hash H g \<noteq> zero_hash H"
  shows "test_validates_correctly H S gk gd sk t d \<noteq> Some False \<and> test_empty_chain_valid H \<and>
         test_valid_chain_validates H S gk gd sk t1 d1 t2 d2 \<noteq> Some False \<and>
         test_invalid_chain_fails H S gk gd sk t1 d1 t2 d2 \<noteq> Some False"
proof -
  have inv: "block_hash H b1 \<noteq> block_hash H g"
    if g: "block_genesis H S gk gd = Some g" and b1: "block_new H S sk t1 g [] d1 = Some b1" for g b1
  proof
    assume "block_hash H b1 = block_hash H g"
    then have "previous_hash b1 = previous_hash g" using binds unfolding block_hash_def by blast
    then show False using block_new_on [OF b1] block_genesis_prev [OF g] gz g by simp
  qed
  have v3: "test_invalid_chain_fails H S gk gd sk t1 d1 t2 d2 \<noteq> Some False"
  proof (cases "block_genesis H S gk gd")
    case (Some g)
    show ?thesis
    proof (cases "block_new H S sk t1 g [] d1")
      case (Some b1)
      then show ?thesis
        using \<open>block_genesis H S gk gd = Some g\<close> inv [OF \<open>block_genesis H S gk gd = Some g\<close> Some]
          block_new_on [of H S sk t2 g "[]" d2]
        by (auto simp: test_invalid_chain_fails_def split: option.splits)
    qed (simp add: test_invalid_chain_fails_def Some)
  qed (simp add: test_invalid_chain_fails_def)
  show ?thesis
    using v3
    by (auto simp: test_validates_correctly_def test_empty_chain_valid_def test_valid_chain_validates_def
                   is_valid_def dest: block_new_on split: option.splits)
qed

text \<open>The census and ballot tests pass: a census built from two keys contains
  the first and not a third key distinct from both (so \<open>test_contains_invalid\<close>
  panics as its \<open>#[should_panic]\<close> requires), a fresh ballot passes
  \<open>validate_proofs\<close>, and a fresh signature verifies under a correct scheme.\<close>

lemma census_ballot_tests_pass:
  assumes "key3 \<notin> {key1, key2}" and "sig_correct S"
  shows "test_contains_valid key1 key2 \<and> \<not> test_contains_invalid key1 key2 key3 \<and>
         test_ballot_build_correct ek now r1 r2 \<and> test_signature_correct S ser sk"
  using assms
  by (simp add: test_contains_valid_def test_contains_invalid_def contains_voter_def census_from_vec_def
                test_ballot_build_correct_def validate_proofs_def test_signature_correct_def
                signature_valid_def signed_new_def sig_correct_def)

section \<open>Witnesses\<close>

theorem delegation_tests_pass_witness:
  "distinct [0::nat, 1, 2, 3, 4, 5] \<and> length [0::nat, 1, 2, 3, 4, 5] = 6 \<and>
   test_power_resolve [0::nat, 1, 2, 3, 4, 5] \<and> test_mixed_cast_weight_cyclic [0::nat, 1, 2, 3, 4, 5]"
  using delegation_tests_pass [of "[0::nat, 1, 2, 3, 4, 5]"] by simp

text \<open>Under the symbolic hash, which binds the previous hash and never hashes a block
  to the zero hash, and the echo scheme, with one accepted nonce on each tape, the
  invalid-chain test runs and passes.\<close>

theorem chain_tests_pass_witness:
  "test_invalid_chain_fails sym_hasher echo_scheme (SigningKey 0) [replicate 8 0] (SigningKey 1) 1 [replicate 8 0] 2
     [replicate 8 0] \<noteq> Some False \<and>
   test_invalid_chain_fails sym_hasher echo_scheme (SigningKey 0) [replicate 8 0] (SigningKey 1) 1 [replicate 8 0] 2
     [replicate 8 0] = Some True"
proof -
  have gz: "\<forall>g. block_genesis sym_hasher echo_scheme (SigningKey 0) [replicate 8 0] = Some g \<longrightarrow>
              block_hash sym_hasher g \<noteq> zero_hash sym_hasher"
    by (simp add: genesis_mined block_hash_def sym_hasher_def test_block_def)
  have run: "test_invalid_chain_fails sym_hasher echo_scheme (SigningKey 0) [replicate 8 0] (SigningKey 1) 1 [replicate 8 0] 2
               [replicate 8 0] = Some True"
    unfolding test_invalid_chain_fails_def genesis_mined
    by (simp add: block_new_def echo_scheme_def sym_hasher_def pow_adjusted_def test_block_def block_hash_def
                  numeral_eq_Suc Let_def)
  show ?thesis
    using chain_tests_pass [OF sym_hasher_binds_prev gz, of "SigningKey 1" 1 "[replicate 8 0]" 1 "[replicate 8 0]" 2
                              "[replicate 8 0]"] run
    by simp
qed

end
