(* ===== verification/Swarm.thy ===== *)
theory Swarm
  imports Node
begin

text \<open>
  The sync behaviour and its connection handlers composed by the libp2p swarm.
  The behaviour (\<open>chain_sync/behaviour.rs\<close>) queues \<open>NotifyHandler\<close> events; the
  swarm delivers each to the handler of the peer's connection
  (\<open>chain_sync/handler.rs\<close>), which asks for an outbound substream; once the swarm
  has negotiated it, the handler runs \<open>send_sync\<close>. The swarm itself is the
  libp2p library and is modelled from its documented behaviour: one connection
  per peer, a handler created by \<open>handle_established_*_connection\<close> when the
  connection opens and dropped when it closes, a notification for a peer without
  a connection discarded. The mDNS arm of the event loop in \<open>main.rs\<close> feeds the
  behaviour's peer set. The lemmas show that every connected peer is a sync peer,
  that a forced sync reaches the peer's handler and starts an outbound sync
  there, and that an expired mDNS peer stays a sync peer.
\<close>

section \<open>Discovery\<close>

text \<open>The mDNS events the event loop handles, with the discovered or expired
  peers and their addresses.\<close>

datatype mdns_event = MdnsDiscovered "(peer \<times> string) list" | MdnsExpired "(peer \<times> string) list"

text \<open>The two mDNS arms of \<open>main\<close>: every discovered peer is dialled (I/O) and added
  to the sync peers; an expired peer is only logged (its removal is commented out).\<close>

definition on_mdns_event :: "behaviour \<Rightarrow> mdns_event \<Rightarrow> behaviour" where
  "on_mdns_event b e =
     (case e of
        MdnsDiscovered list \<Rightarrow> fold (\<lambda>(peer_id, multiaddr) b. add_explicit_peer b peer_id) list b
      | MdnsExpired list \<Rightarrow> b)"

section \<open>The swarm\<close>

text \<open>The handler a new connection gets: \<open>handle_established_inbound_connection\<close>
  and \<open>handle_established_outbound_connection\<close> both return \<open>Handler::new\<close>.\<close>

definition handle_established_connection :: "peer \<Rightarrow> handler" where
  "handle_established_connection peer = handler_new"

text \<open>The behaviour and the handler of each connected peer.\<close>

record swarm =
  sw_behaviour :: behaviour
  sw_handlers :: "peer \<rightharpoonup> handler"

definition swarm_new :: swarm where
  "swarm_new = \<lparr>sw_behaviour = behaviour_new, sw_handlers = Map.empty\<rparr>"

text \<open>What happens to the swarm: a connection opens or closes, the behaviour is
  polled (with a heartbeat tick or not), a handler is polled (with whether its
  inbound and outbound futures are ready and whether the substream it asks for is
  negotiated), a peer opens an inbound substream, an mDNS event arrives.\<close>

datatype swarm_input =
  Dial peer | Hangup peer | PollBehaviour "nat option" | PollHandler peer bool bool bool
  | InboundStream peer | Mdns mdns_event

fun swarm_step :: "swarm \<Rightarrow> swarm_input \<Rightarrow> swarm" where
  "swarm_step s (Dial p) =
     (if p \<in> dom (sw_handlers s) then s
      else \<lparr>sw_behaviour = on_swarm_event (sw_behaviour s) (ConnectionEstablished p),
            sw_handlers = (sw_handlers s)(p \<mapsto> handle_established_connection p)\<rparr>)"
| "swarm_step s (Hangup p) =
     (if p \<in> dom (sw_handlers s)
      then \<lparr>sw_behaviour = on_swarm_event (sw_behaviour s) (ConnectionClosed p),
            sw_handlers = (sw_handlers s)(p := None)\<rparr>
      else s)"
| "swarm_step s (PollBehaviour tick) =
     (case behaviour_poll (sw_behaviour s) tick of
        (Some (NotifyHandler p), b') \<Rightarrow>
          (case sw_handlers s p of
             None \<Rightarrow> s\<lparr>sw_behaviour := b'\<rparr>
           | Some h \<Rightarrow> \<lparr>sw_behaviour = b', sw_handlers = (sw_handlers s)(p \<mapsto> on_behaviour_event h ForceSync)\<rparr>)
      | (None, b') \<Rightarrow> s\<lparr>sw_behaviour := b'\<rparr>)"
| "swarm_step s (PollHandler p in_ready out_ready negotiated) =
     (case sw_handlers s p of
        None \<Rightarrow> s
      | Some h \<Rightarrow>
          (case handler_poll h in_ready out_ready of
             (Some OutboundSubstreamRequest, h') \<Rightarrow>
               s\<lparr>sw_handlers := (sw_handlers s)(p \<mapsto>
                   on_connection_event h' (if negotiated then FullyNegotiatedOutbound else DialUpgradeError))\<rparr>
           | (None, h') \<Rightarrow> s\<lparr>sw_handlers := (sw_handlers s)(p \<mapsto> h')\<rparr>))"
| "swarm_step s (InboundStream p) =
     (case sw_handlers s p of
        None \<Rightarrow> s
      | Some h \<Rightarrow> s\<lparr>sw_handlers := (sw_handlers s)(p \<mapsto> on_connection_event h FullyNegotiatedInbound)\<rparr>)"
| "swarm_step s (Mdns e) = s\<lparr>sw_behaviour := on_mdns_event (sw_behaviour s) e\<rparr>"

definition swarm_run :: "swarm \<Rightarrow> swarm_input list \<Rightarrow> swarm" where
  "swarm_run s inputs = fold (\<lambda>i s. swarm_step s i) inputs s"

text \<open>The invariant: every peer with a connection handler is a sync peer.\<close>

definition swarm_inv :: "swarm \<Rightarrow> bool" where
  "swarm_inv s \<longleftrightarrow> dom (sw_handlers s) \<subseteq> sync_peers (sw_behaviour s)"

section \<open>Lemmas\<close>

lemma sync_peers_mdns:
  "sync_peers (on_mdns_event b e) =
     (case e of MdnsDiscovered list \<Rightarrow> sync_peers b \<union> fst ` set list | MdnsExpired list \<Rightarrow> sync_peers b)"
proof (cases e)
  case (MdnsDiscovered list)
  have "sync_peers (fold (\<lambda>(peer_id, multiaddr) b. add_explicit_peer b peer_id) list b) = sync_peers b \<union> fst ` set list"
    by (induction list arbitrary: b) (auto simp: add_explicit_peer_def)
  then show ?thesis using MdnsDiscovered by (simp add: on_mdns_event_def)
qed (simp add: on_mdns_event_def)

lemma sync_peers_poll: "sync_peers (snd (behaviour_poll b tick)) = sync_peers b"
  by (simp add: behaviour_poll_def heartbeat_def force_sync_def split: option.splits list.splits)

lemma swarm_step_inv: "swarm_inv s \<Longrightarrow> swarm_inv (swarm_step s i)"
proof (cases i)
  case (PollBehaviour tick)
  assume inv: "swarm_inv s"
  obtain ev b' where bp: "behaviour_poll (sw_behaviour s) tick = (ev, b')" by (cases "behaviour_poll (sw_behaviour s) tick")
  have "sync_peers b' = sync_peers (sw_behaviour s)" using sync_peers_poll [of "sw_behaviour s" tick] bp by simp
  then show ?thesis
    using inv PollBehaviour bp by (auto simp: swarm_inv_def split: option.splits to_swarm.splits)
qed (auto simp: swarm_inv_def on_swarm_event_def sync_peers_mdns split: option.splits prod.splits
              handler_event.splits mdns_event.splits)

lemma swarm_run_inv: "swarm_inv s \<Longrightarrow> swarm_inv (swarm_run s inputs)"
  by (induction inputs arbitrary: s) (simp_all add: swarm_run_def swarm_step_inv)


text \<open>
  C36. A forced sync reaches its peer: when the behaviour's queue and the handler
  of a connected peer's queue are empty, \<open>force_sync\<close> for that peer followed by
  one poll of the behaviour and one poll of the handler, whose substream is
  negotiated, leaves the handler running an outbound sync with nothing queued.
\<close>

theorem force_sync_reaches_handler:
  assumes h: "sw_handlers s p = Some h" and b: "events (sw_behaviour s) = []" and q: "handler_events h = []"
  shows "\<exists>h'. sw_handlers (swarm_run (s\<lparr>sw_behaviour := force_sync (sw_behaviour s) p\<rparr>)
                 [PollBehaviour tick, PollHandler p in_ready out_ready True]) p = Some h' \<and>
             outbound h' \<and> handler_events h' = []"
  using assms
  by (simp add: swarm_run_def force_sync_def behaviour_poll_def on_behaviour_event_def handler_poll_def
                on_connection_event_def)

text \<open>
  C37. mDNS expiry does not retire a peer: a peer discovered by mDNS stays in the
  behaviour's peer set after the same peer expires, so the heartbeat keeps
  choosing it (only a closed connection removes a peer).
\<close>

theorem mdns_expired_peer_stays:
  "sync_peers (sw_behaviour (swarm_run s [Mdns (MdnsDiscovered list), Mdns (MdnsExpired list)]))
     = sync_peers (sw_behaviour s) \<union> fst ` set list"
  by (simp add: swarm_run_def sync_peers_mdns)

section \<open>Witnesses\<close>

text \<open>Peer 7 connects to a fresh node, which then forces a sync with it.\<close>

theorem force_sync_reaches_handler_witness:
  "sw_handlers (swarm_run swarm_new [Dial 7]) 7 = Some handler_new \<and>
   events (sw_behaviour (swarm_run swarm_new [Dial 7])) = [] \<and> handler_events handler_new = [] \<and>
   (\<exists>h'. sw_handlers (swarm_run ((swarm_run swarm_new [Dial 7])\<lparr>sw_behaviour := force_sync (sw_behaviour (swarm_run swarm_new [Dial 7])) 7\<rparr>)
             [PollBehaviour None, PollHandler 7 False False True]) 7 = Some h' \<and>
         outbound h' \<and> handler_events h' = [])"
proof -
  have h: "sw_handlers (swarm_run swarm_new [Dial 7]) 7 = Some handler_new"
    and b: "events (sw_behaviour (swarm_run swarm_new [Dial 7])) = []"
    and q: "handler_events handler_new = []"
    by (simp_all add: swarm_run_def swarm_new_def handle_established_connection_def behaviour_new_def
                      on_swarm_event_def handler_new_def)
  show ?thesis
    using force_sync_reaches_handler [OF h b q, of None False False] h b q by simp
qed

end
