(* ===== verification/Heartbeat.thy ===== *)
theory Heartbeat
  imports Chain
begin

text \<open>
  The height heartbeat of \<open>src/node/src/protocols/chain_sync/protocol_heartbeats.rs\<close>,
  an earlier protocol of the sync module (it refers to a module path,
  \<open>crate::chain::chain\<close>, that the crate no longer has, and nothing calls it). The
  initiator sends its height and reads the peer's answer; the responder reads a
  height and answers with its own. As in the theory \<open>Sync\<close>, the model is
  message-level: a stream is what the peer writes, \<open>None\<close> a stream that ends
  without a message. The elapsed time the initiator measures is an input.
  Failures of the stream itself are I/O and are not modelled.
\<close>

text \<open>\<open>struct HeartbeatMessage\<close>.\<close>

datatype heartbeat_message = HeartbeatMessage (hb_height: nat)

text \<open>The \<open>CborCodecError::Io\<close> of kind \<open>TimedOut\<close> that both sides return, with its
  message.\<close>

datatype heartbeat_error = TimedOut string

text \<open>\<open>send_heartbeat\<close>: write our height; the peer's answer (a function of the
  request) gives its height, a missing answer the time-out error.\<close>

definition send_heartbeat ::
  "'h blockchain \<Rightarrow> (heartbeat_message \<Rightarrow> heartbeat_message option) \<Rightarrow> nat \<Rightarrow> heartbeat_error + nat \<times> nat" where
  "send_heartbeat s peer elapsed =
     (case peer (HeartbeatMessage (get_height s)) of
        Some response \<Rightarrow> Inr (hb_height response, elapsed)
      | None \<Rightarrow> Inl (TimedOut ''Didn't recieve a response from the peer''))"

text \<open>\<open>recv_heartbeat\<close>: read a request; answer with our height and return the
  peer's. The first component is what the responder writes.\<close>

definition recv_heartbeat ::
  "'h blockchain \<Rightarrow> heartbeat_message option \<Rightarrow> heartbeat_message option \<times> (heartbeat_error + nat)" where
  "recv_heartbeat s req =
     (case req of
        Some request \<Rightarrow> (Some (HeartbeatMessage (get_height s)), Inr (hb_height request))
      | None \<Rightarrow> (None, Inl (TimedOut ''Never recieved a heartbeat'')))"

text \<open>One heartbeat between an initiator and a responder: the results of both sides.\<close>

definition heartbeat_exchange ::
  "'h blockchain \<Rightarrow> 'h blockchain \<Rightarrow> nat \<Rightarrow> (heartbeat_error + nat \<times> nat) \<times> (heartbeat_error + nat)" where
  "heartbeat_exchange a b elapsed =
     (send_heartbeat a (\<lambda>m. fst (recv_heartbeat b (Some m))) elapsed,
      snd (recv_heartbeat b (Some (HeartbeatMessage (get_height a)))))"

section \<open>Properties\<close>

text \<open>
  C34. The heartbeat exchanges heights: each side of one heartbeat learns the
  other's height (the initiator with the elapsed time), and an initiator whose
  peer closes the stream without answering gets the time-out error.
\<close>

theorem heartbeat_exchange_heights:
  "heartbeat_exchange a b elapsed = (Inr (height b, elapsed), Inr (height a)) \<and>
   send_heartbeat a (\<lambda>_. None) elapsed = Inl (TimedOut ''Didn't recieve a response from the peer'')"
  by (simp add: heartbeat_exchange_def send_heartbeat_def recv_heartbeat_def get_height_def)

end
