(* ===== verification/Spec2Isabelle.thy ===== *)
theory Spec2Isabelle
  imports Startup Tests Swarm Heartbeat
begin

text \<open>
  \<^bold>\<open>Verification development of votechain.\<close> The repository is a voting system
  on a proof-of-work chain. It has three parts: the ballot library \<open>vote_lib\<close>
  (\<open>src/lib\<close>), the node (\<open>src/node\<close>) and the client (\<open>src/client\<close>). The client
  builds a Paillier-encrypted ballot, signs it and publishes it by gossip. A node
  checks each gossiped ballot against its census, pools it, and mines a block
  from the pool when the pool fills. It syncs its chain with its peers and tallies
  the chain with delegated voting power.

  \<^bold>\<open>Theories and the code they model.\<close>
  \<^item> \<open>Prelude\<close>: the type names the components share (bytes, keys, \<open>u32\<close> indices
    as naturals), fact collections, and generic lemmas on lists, association
    lists and maps.
  \<^item> \<open>Ballot\<close> (\<open>lib.rs\<close>): \<open>Ballot\<close>, \<open>Ballot::new\<close>, \<open>validate_proofs\<close>, \<open>weight\<close>
    and \<open>sum\<close>, and \<open>Signed\<close> with \<open>new\<close> and \<open>signature_valid\<close>. Paillier and
    Ed25519 are interfaces: a ciphertext is the residue it encrypts, and a
    signature scheme is a record of a sign and a verify function.
  \<^item> \<open>Block\<close> (\<open>votechain/block.rs\<close>): \<open>Block\<close>, \<open>hash\<close>, \<open>is_valid\<close>,
    \<open>proof_of_work\<close>, \<open>new\<close>, \<open>seal\<close> and \<open>genesis\<close>, over an abstract hasher
    \<open>'h hasher\<close> (the BLAKE3 interface), and \<open>8 word\<close> bytes.
  \<^item> \<open>Chain\<close> (\<open>votechain/chain.rs\<close>, \<open>errors.rs\<close>, \<open>config.rs\<close>): the
    \<open>Blockchain\<close> record (the LMDB table as an association list, the hash index,
    the height, the pool, the key) and its operations \<open>new\<close>, \<open>get_block\<close>,
    \<open>try_get_block\<close>, \<open>get_height\<close>, \<open>get_block_from_hash\<close>, \<open>get_hash_at\<close>,
    \<open>blocks\<close>, \<open>blocks_from\<close>, \<open>append\<close>, \<open>try_update_longest\<close>, \<open>pool_ballot\<close>,
    \<open>iter\<close> with its iterator, and \<open>Display\<close>, with \<open>is_valid_chain\<close>. The
    abstraction \<open>chain_of\<close> reads a store as the list of blocks \<open>1..=height\<close>, and
    \<open>chain_inv\<close> is the store invariant.
  \<^item> \<open>Delegations\<close> (\<open>trustee/delegations.rs\<close>): \<open>DelegationGraph::new\<close>,
    \<open>random\<close>, \<open>get_adj_list\<close>, the stack loop of \<open>resolve_power\<close>, and
    \<open>generate_weights\<close>.
  \<^item> \<open>Tally\<close> (\<open>trustee/resolve.rs\<close>): \<open>generate_vote_result\<close>, as its three loops:
    collecting the latest ballots, weighting them, and summing.
  \<^item> \<open>Sync\<close> (\<open>protocols/chain_sync/protocol.rs\<close>): \<open>recv_sync\<close> as its loop over
    a request stream, with its three error returns, and as the one-request
    responder \<open>recv_handle\<close> the conversation uses; \<open>send_sync\<close> as a walk-back
    that consumes the responses.
  \<^item> \<open>Node\<close> (\<open>census.rs\<close>, \<open>chain_sync/behaviour.rs\<close>, \<open>chain_sync/handler.rs\<close>,
    \<open>main.rs\<close>):
    \<^item> the census;
    \<^item> the behaviour's event queue, peer set, heartbeat and \<open>try_resolve\<close>;
    \<^item> the handler's event queue and its running futures;
    \<^item> the gossip arm and the delay arm of the node's event loop.
  \<^item> \<open>Client\<close> (\<open>client/src\<close>): \<open>Cfg\<close>, \<open>CastArgs\<close>, \<open>cast\<close>, \<open>generate_keys\<close>,
    \<open>generate_population\<close> and the subcommand dispatch, over a file system that
    maps paths to keys; \<open>send_to_swarm\<close> as the trace of its effects (listen,
    subscribe, dial, wait, publish, wait), and \<open>cast_run\<close>, the cast followed
    by it.
  \<^item> \<open>Startup\<close> (\<open>node/src/main.rs\<close> before its loop, \<open>cli.rs\<close>,
    \<open>votechain/config.rs\<close>): \<open>Cli\<close>, \<open>BlockchainConfig\<close>, \<open>DEFAULT_PORT\<close>,
    the port selection, and \<open>node_start\<close>: issue id, signing key, census,
    \<open>Blockchain::new\<close> at the configured path, listen address and trustee keys,
    with every failing \<open>?\<close> or \<open>unwrap\<close> as \<open>None\<close>.
  \<^item> \<open>Heartbeat\<close> (\<open>chain_sync/protocol_heartbeats.rs\<close>): the height heartbeat,
    \<open>send_heartbeat\<close> and \<open>recv_heartbeat\<close>, at message level. The file is not
    compiled: it imports a module path the crate no longer has.
  \<^item> \<open>Swarm\<close>: the behaviour and one handler per connected peer, composed by a
    step function \<open>swarm_step\<close> that models the libp2p swarm. It includes the
    mDNS arms of \<open>main.rs\<close>.
  \<^item> \<open>Tests\<close>: every \<open>#[test]\<close> of the delegation, chain, block, census and
    \<open>vote_lib\<close> modules, as the condition it asserts.
  \<^item> This theory: a node's own writes as the step relation \<open>chain_step\<close>, a
    network of nodes as \<open>net_step\<close> (local steps and syncs), and the properties
    that span components.

  \<^bold>\<open>How the code is rendered.\<close>
  \<^item> A mutating method takes the store and returns the updated store.
  \<^item> A \<open>Result\<close> is \<open>error + 'a\<close>.
  \<^item> A panic, or a loop that is still running, is \<open>None\<close>.
  \<^item> A \<open>HashMap\<close> is an association list with distinct keys; a \<open>HashSet\<close> is a
    list without duplicates; a \<open>VecDeque\<close> is a list.
  \<^item> Randomness and clock readings are inputs: nonce tapes, an index for
    \<open>choose\<close>, a draw function for \<open>DelegationGraph::random\<close>, the encryption
    randomness.
  \<^item> Serialisation is a function parameter.

  \<^bold>\<open>What the lemmas show\<close> (by claim id).
  \<^item> Chain refinement and invariant: \<open>append\<close> is list snoc behind its link check
    (C1); every reachable network of nodes keeps the invariant (C2);
    \<open>try_update_longest\<close> is the reorganisation \<open>take fork @ blocks\<close> and re-pools
    the stripped ballots (C3).
  \<^item> Ballots in the store: \<open>pool_ballot\<close> loses no ballot (C4); only checked
    ballots enter by gossip (C5); a ballot cast by a client whose key is one of
    a node's identity files is published on the node's topic and accepted by
    the node's gossip handler (C9).
  \<^item> Tally: the result is the weighted majority of the latest ballots (C6, C7),
    and \<open>validate_proofs\<close> lets a forged ballot decide it (C22).
  \<^item> Delegations: the stack loop equals the count of represented delegators
    (C8); the weights sum to at most the census, and to exactly the census
    when all of it is represented (C10); \<open>random\<close> builds a well-formed graph
    over the census (C11); a voter's power is 1 when everybody voted (C18).
  \<^item> Blocks: mined blocks are valid (C12); the acceptance test needs twelve zero
    bits (C13); the nonce search ends exactly when an accepted nonce is drawn
    (C14); the hash ignores several block fields (C19).
  \<^item> Chain reads and edge cases: \<open>blocks\<close> omits the head (C15); re-streaming
    the head is a no-op (C20); \<open>append\<close> leaves the hash index stale (C21).
  \<^item> Ballots and signatures: a fresh ballot is well formed (C16); a fresh
    signature verifies (C17).
  \<^item> Sync: a sync converges to the peer's chain (C23); its error results
    (C24); the panic on a bad block (C25); the responder loop writes exactly
    what its per-request handler writes while it keeps listening (C40).
  \<^item> Node internals: the heartbeat (C26), the LIFO behaviour queue (C27), the
    census (C28), and the test-append loop (C29).
  \<^item> Client: the cast packet (C30) and its panics (C31); the test population is
    one voter (C32).
  \<^item> Store iterator: \<open>Blockchain::iter\<close> skips the genesis block (C33).
  \<^item> Height heartbeat: it exchanges heights (C34).
  \<^item> Swarm: every connected peer is a sync peer (C35); a forced sync starts an
    outbound sync on the peer's handler (C36); an expired mDNS peer stays a sync
    peer (C37).
  \<^item> Unit tests: the model passes the repository's tests (C38, C39). The
    delegation tests are proved for every six distinct keys, not only for the
    keys one run draws.

  \<^bold>\<open>Termination, fuel and bounds.\<close>
  \<^item> No definition uses fuel.
  \<^item> \<open>resolve_loop\<close>, \<open>sync_walk\<close> and \<open>iter_collect\<close> are \<open>function\<close>s with
    termination proofs. \<open>resolve_loop\<close> uses a lexicographic measure on the
    unvisited keys and the stack. \<open>sync_walk\<close> uses the initiator's sync height.
    \<open>iter_collect\<close> uses the distance of the cursor from the largest key of the
    table, so the store iterator ends on every table, valid or not.
  \<^item> The open-ended loop \<open>proof_of_work\<close> runs over a finite nonce tape, and an
    exhausted tape is \<open>None\<close>. C14 says exactly which tapes make it return; C29
    and C9 assume that it returns (C9 on an empty pool, where it is not run).
  \<^item> \<open>BLOCK_SIZE\<close> is 2, as in \<open>config.rs\<close>.
  \<^item> \<open>u32\<close> heights and indices are naturals. The one \<open>u32\<close> underflow the code
    can reach (the sync walk below height 1) is a panic of the model.
  \<^item> Proof-of-work bytes are \<open>8 word\<close>, so the AND test is bitwise at width 8.

  \<^bold>\<open>Not modelled.\<close>
  \<^item> I/O: the libp2p swarm (construction, dialling, Kademlia, identify,
    gossipsub publishing, \<open>listen_protocol\<close>), stdin publishing, logging,
    tracing set-up, \<open>local_ip\<close>, the swarm construction in the client's
    \<open>send_to_swarm\<close> and in \<open>NodeBehaviours::new\<close>, and the key-file reads
    and writes themselves (their contents are inputs).
  \<^item> clap's parsing: the parsed \<open>Cli\<close> and \<open>CastArgs\<close> are inputs.
  \<^item> The \<open>Display\<close> and getter implementations of \<open>lib.rs\<close>, which format
    timestamps with \<open>OffsetDateTime\<close>; a read of \<open>recv_sync\<close>'s stream that
    fails to decode.
  \<^item> \<open>protocols/heartbeat.rs\<close>, which only configures the libp2p ping behaviour.
  \<^item> The stubs \<open>send_sync\<close> and \<open>recv_sync\<close> of \<open>protocol_heartbeats.rs\<close>,
    which return their stream unchanged.
  \<^item> \<open>Blockchain::seal\<close>, which is \<open>todo!()\<close>, and \<open>Debug for Blockchain\<close>, which
    prints the configured LMDB path that the model does not hold.
  \<^item> The libp2p swarm beyond \<open>Swarm\<close>: several connections per peer, dialling
    and the other behaviours of \<open>NodeBehaviours\<close>.
  \<^item> \<open>generate_trustee_keys\<close>, which serialises a library key pair.
  \<^item> LMDB failures: the store is assumed to work.
  \<^item> The internals of Paillier, Ed25519 and BLAKE3, which enter only as the
    interfaces above.
\<close>

section \<open>Nodes and their network as transition systems\<close>

text \<open>
  The operations by which a node writes its own store, as steps of one relation:
  an \<open>append\<close> that succeeds (the test-append branch of \<open>main.rs\<close>) and a
  \<open>pool_ballot\<close> call (the gossip handler of \<open>main.rs\<close> through
  \<open>Behaviour::pool_ballot\<close>).
\<close>

inductive chain_step :: "'h hasher \<Rightarrow> sig_scheme \<Rightarrow> 'h blockchain \<Rightarrow> 'h blockchain \<Rightarrow> bool"
  for H S where
  step_append: "append H s b = Inr s' \<Longrightarrow> chain_step H S s s'"
| step_pool: "pool_ballot H S s now draws b = Some (s', r) \<Longrightarrow> chain_step H S s s'"

text \<open>
  A network of nodes, each with its store: a node takes a local step, or syncs from
  another node (\<open>send_sync\<close> against that node's \<open>recv_sync\<close>) and keeps the store the
  initiator ends with. A panicking sync (\<open>None\<close>) is no step. The network starts
  with every node opened on an empty table with the same genesis block.
\<close>

inductive net_step :: "'h hasher \<Rightarrow> sig_scheme \<Rightarrow> 'h blockchain list \<Rightarrow> 'h blockchain list \<Rightarrow> bool"
  for H S where
  net_local: "i < length ns \<Longrightarrow> chain_step H S (ns ! i) s' \<Longrightarrow> net_step H S ns (ns[i := s'])"
| net_sync: "i < length ns \<Longrightarrow> j < length ns \<Longrightarrow> send_sync H (ns ! i) (ns ! j) = Some (s', r) \<Longrightarrow>
    net_step H S ns (ns[i := s'])"

inductive net_reachable :: "'h hasher \<Rightarrow> sig_scheme \<Rightarrow> 'h blockchain list \<Rightarrow> bool"
  for H S where
  net_open: "net_reachable H S (map (\<lambda>sk. chain_new H g [] sk) sks)"
| net_next: "net_reachable H S ns \<Longrightarrow> net_step H S ns ns' \<Longrightarrow> net_reachable H S ns'"

section \<open>Properties across components\<close>

lemma chain_step_inv:
  "chain_step H S s s' \<Longrightarrow> chain_inv H s \<Longrightarrow> chain_inv H s'"
proof (induction rule: chain_step.induct)
  case (step_append s b s')
  then show ?case using append_Inr by blast
next
  case (step_pool s now draws b s' r)
  then show ?case using pool_ballot_inv by blast
qed

lemma net_step_inv:
  assumes binds: "\<forall>t p xs t' p' xs'. digest H t p xs = digest H t' p' xs' \<longrightarrow> p = p'"
  shows "net_step H S ns ns' \<Longrightarrow> \<forall>s\<in>set ns. chain_inv H s \<Longrightarrow> \<forall>s\<in>set ns'. chain_inv H s"
proof (induction rule: net_step.induct)
  case (net_local i ns s')
  then have "chain_inv H s'" using chain_step_inv nth_mem by blast
  then show ?case using net_local.prems by (auto dest: set_update_subset_insert [THEN subsetD])
next
  case (net_sync i ns j s' r)
  have "chain_inv H (ns ! i)" "chain_inv H (ns ! j)" using net_sync.prems net_sync.hyps(1,2) by auto
  then have "chain_inv H s'"
    using send_sync_Some [OF _ _ binds] net_sync.hyps(3) by fastforce
  then show ?case using net_sync.prems by (auto dest: set_update_subset_insert [THEN subsetD])
qed

text \<open>
  C2. Chain validity across the network (property 4 of the specification, extended
  to syncs): in every network reachable from freshly opened nodes by appends,
  pooled ballots and syncs between nodes, every node's store satisfies the chain
  invariant (indices exactly \<open>1..=height\<close>, consecutive blocks linked), provided the
  digest binds the previous hash.
\<close>

theorem net_reachable_inv:
  assumes binds: "\<forall>t p xs t' p' xs'. digest H t p xs = digest H t' p' xs' \<longrightarrow> p = p'"
    and reach: "net_reachable H S ns"
  shows "\<forall>s\<in>set ns. chain_inv H s"
  using reach
proof induction
  case (net_open g sks)
  then show ?case by (auto intro: chain_new_inv)
next
  case (net_next ns ns')
  then show ?case using net_step_inv [OF binds] by blast
qed

text \<open>
  C9. A ballot cast by a voter of the census reaches a node and is accepted there.
  Take a node started on empty tables, whose census is read from the identity
  files, and a client whose signing key file holds one of those keys. The message
  \<open>cast\<close> publishes is on the node's topic. The node decodes it to the cast ballot,
  which passes the signature and census checks of its gossip handler. Once
  \<open>pool_ballot\<close> returns, the ballot is in the node's store, the store is valid,
  and the tally has been attempted.
\<close>

theorem cast_reaches_node:
  assumes start: "node_start H S args random_issue fresh fs identities (\<lambda>_. []) gd bindable trustees = Some n"
    and sig: "sig_correct S"
    and run: "cast_run S ser wire (Some ek) cfs t r1 r2 cargs cf = Some acts"
    and key: "cfs (cast_key_path cargs cf) \<in> Some ` set identities"
    and pub: "Publish topic msg \<in> set acts"
    and decode: "\<forall>sb. deser (wire sb) = Some sb"
    and mined: "pool_ballot H S (node_chain n) now draws (the (deser msg)) = Some (s1, e)"
  shows "topic = vote_topic \<and>
         (\<exists>sb r. deser msg = Some sb \<and>
            on_gossip_message H S ser (node_census n) dk ek' rng now draws (node_chain n) (deser msg) = Some (s1, Resolved r) \<and>
            sb \<in> store_ballots s1 \<and> chain_inv H s1)"
proof -
  obtain sb port where c: "cast S ser (Some ek) cfs t r1 r2 cargs cf = Some (sb, port)"
    and tp: "topic = ''ballot-cast''" and d: "msg = wire sb"
    using cast_run_publish [OF run pub] by blast
  obtain sk where sk: "cfs (cast_key_path cargs cf) = Some sk"
    and sb: "sb = signed_new S ser sk (ballot_new ek (cast_verdict cargs) (cast_issue cargs) t r1 r2)"
    using c by (auto simp: cast_Some)
  have sv: "signature_valid S ser sb"
    using sig sb by (simp add: sig_correct_def signature_valid_def signed_new_def)
  have st: "chain_inv H (node_chain n)" and cn: "node_census n = census_new identities"
    using node_start_fresh [OF start] by simp_all
  have "sk \<in> set identities" using key sk by auto
  then have cen: "contains_voter (node_census n) (signer sb)"
    using cn sb by (simp add: census_new_contains signed_new_def)
  have dec: "deser msg = Some sb" using decode d by simp
  have p: "pool_ballot H S (node_chain n) now draws sb = Some (s1, e)" using mined dec by simp
  show ?thesis
    using on_gossip_message_accept [OF st sv cen p] store_ballots_pool_ballot [OF st p] pool_ballot_inv [OF st p]
      tp dec
    by (auto simp: vote_topic_def)
qed

text \<open>
  C32. The test population of the client is a single voter: the fourteen identity
  files \<open>6.der\<close> to \<open>19.der\<close> that \<open>generate_population\<close> writes under the default
  configuration hold the same key, so the census \<open>DumbCensus::new\<close> reads from them
  has one member, and the tally counts the ballots cast under any of these
  identities as one voter's.
\<close>

theorem population_single_voter:
  "census_as_vec (census_new (map (\<lambda>i. the (generate_population cfg_default sk fs (identity_path i))) [6..<20]))
     = [verifying_key sk]"
proof -
  have "map (\<lambda>i. the (generate_population cfg_default sk fs (identity_path i))) [6..<20] = map (\<lambda>_. sk) [6..<20]"
    by (rule map_cong [OF refl]) (simp only: set_upt generate_population_default option.sel)
  then show ?thesis by (simp add: census_new_def census_as_vec_def upt_rec)
qed

section \<open>Witnesses\<close>

lemma s5_open_append:
  "append sym_hasher (chain_new sym_hasher s5_genesis [] (SigningKey 0)) s5_b1 =
     Inr (chain_new sym_hasher s5_genesis [] (SigningKey 0)\<lparr>chain_db := [(1, s5_genesis), (2, s5_b1)], height := 2\<rparr>)"
  by (simp add: append_def chain_new_def get_block_def is_valid_def s5_b1_def test_block_def)

text \<open>Two nodes opened on \<open>G\<close>: the first appends \<open>B1\<close>, the second syncs from it and
  adopts \<open>G, B1\<close>.\<close>

theorem net_reachable_inv_witness:
  "\<exists>n1 n2. (\<forall>t p xs t' p' xs'. digest sym_hasher t p xs = digest sym_hasher t' p' xs' \<longrightarrow> p = p') \<and>
       net_reachable sym_hasher echo_scheme [n1, n2] \<and> chain_of n2 = [s5_genesis, s5_b1] \<and>
       chain_inv sym_hasher n1 \<and> chain_inv sym_hasher n2"
proof -
  let ?s0 = "chain_new sym_hasher s5_genesis [] (SigningKey 0)"
  let ?s1 = "?s0\<lparr>chain_db := [(1, s5_genesis), (2, s5_b1)], height := 2\<rparr>"
  let ?t0 = "chain_new sym_hasher s5_genesis [] (SigningKey 1)"
  have r0: "net_reachable sym_hasher echo_scheme [?s0, ?t0]"
    using net_open [of sym_hasher echo_scheme s5_genesis "[SigningKey 0, SigningKey 1]"] by simp
  have st: "chain_step sym_hasher echo_scheme ?s0 ?s1"
    by (rule step_append [OF s5_open_append])
  have "net_step sym_hasher echo_scheme [?s0, ?t0] ([?s0, ?t0][0 := ?s1])"
    by (rule net_local) (use st in simp_all)
  then have r1: "net_reachable sym_hasher echo_scheme [?s1, ?t0]"
    using net_next [OF r0] by simp
  obtain t1 where sy: "send_sync sym_hasher ?t0 ?s1 = Some (t1, Inr ())"
    and c: "chain_of t1 = [s5_genesis, s5_b1]"
    by (simp add: send_sync_def sync_walk.simps chain_new_def get_hash_at_def get_block_def recv_handle_def
                  blocks_from_def on_response_def try_update_longest_def s5_b1_def s5_genesis_def
                  test_block_def block_hash_def sym_hasher_def chain_of_def upt_rec Let_def)
  have "net_step sym_hasher echo_scheme [?s1, ?t0] ([?s1, ?t0][1 := t1])"
    by (rule net_sync [where i = 1 and j = 0 and r = "Inr ()"]) (simp_all add: sy [simplified])
  then have r2: "net_reachable sym_hasher echo_scheme [?s1, t1]"
    using net_next [OF r1] by simp
  show ?thesis
    using net_reachable_inv [OF sym_hasher_binds_prev r2] sym_hasher_binds_prev r2 c by auto
qed


text \<open>A node started with chain postfix \<open>t\<close>, a fresh key 0 and the identity file of
  key 3, and a client casting a yes vote as identity 3; the packet is passed as
  it is, and the node's pool is empty, so \<open>pool_ballot\<close> returns without mining.\<close>

theorem cast_reaches_node_witness:
  "\<exists>n acts s1.
     node_start sym_hasher echo_scheme
       \<lparr>cli_config = None, chain_postfix = Some ''t'', private_key = None, test_append = 0, test_identity = None\<rparr>
       ''xxxxxxx'' (SigningKey 0) [''./temp/identities/default.der'' \<mapsto> SigningKey 0] [SigningKey 3] (\<lambda>_. [])
       [replicate 8 0] True (Some (\<lparr>ek_n = 7\<rparr>, \<lparr>dk_n = 7\<rparr>)) = Some n \<and>
     cast_run echo_scheme (\<lambda>_. []) (\<lambda>sb. sb) (Some \<lparr>ek_n = 7\<rparr>) [''./temp/identities/3.der'' \<mapsto> SigningKey 3] 5 1 2
       demo_args cfg_default = Some acts \<and>
     Publish ''ballot-cast'' (signed_new echo_scheme (\<lambda>_. []) (SigningKey 3) (ballot_new \<lparr>ek_n = 7\<rparr> True ''vote'' 5 1 2))
       \<in> set acts \<and>
     (\<exists>r. on_gossip_message sym_hasher echo_scheme (\<lambda>_. []) (node_census n) \<lparr>dk_n = 7\<rparr> \<lparr>ek_n = 7\<rparr> (\<lambda>_. (False, 0)) 0 []
            (node_chain n) (Some (signed_new echo_scheme (\<lambda>_. []) (SigningKey 3) (ballot_new \<lparr>ek_n = 7\<rparr> True ''vote'' 5 1 2)))
          = Some (s1, Resolved r)) \<and>
     signed_new echo_scheme (\<lambda>_. []) (SigningKey 3) (ballot_new \<lparr>ek_n = 7\<rparr> True ''vote'' 5 1 2) \<in> store_ballots s1"
proof -
  let ?sb = "signed_new echo_scheme (\<lambda>_. []) (SigningKey 3) (ballot_new \<lparr>ek_n = 7\<rparr> True ''vote'' 5 1 2)"
  let ?args = "\<lparr>cli_config = None, chain_postfix = Some ''t'', private_key = None, test_append = 0, test_identity = None\<rparr>"
  let ?g = "test_block 0 ZeroHash (Genesis [])\<lparr>block_signature := replicate 8 0 @ replicate 24 0, nonce := replicate 8 0\<rparr>"
  let ?s0 = "chain_new sym_hasher ?g [] (SigningKey 0)"
  let ?n = "\<lparr>node_issue = ''t'', node_key = SigningKey 0, node_census = census_new [SigningKey 3], node_chain = ?s0,
             node_addr = ''/ip4/0.0.0.0/tcp/'' @ nat_to_string 0, node_keys = (\<lparr>ek_n = 7\<rparr>, \<lparr>dk_n = 7\<rparr>)\<rparr>"
  let ?acts = "send_to_swarm (\<lambda>sb. sb) ?sb 47474"
  have start: "node_start sym_hasher echo_scheme ?args ''xxxxxxx'' (SigningKey 0) [''./temp/identities/default.der'' \<mapsto> SigningKey 0]
                 [SigningKey 3] (\<lambda>_. []) [replicate 8 0] True (Some (\<lparr>ek_n = 7\<rparr>, \<lparr>dk_n = 7\<rparr>)) = Some ?n"
    by (simp add: node_start_def genesis_mined node_port_def Let_def)
  have s: "sig_correct echo_scheme" by (simp add: sig_correct_def echo_scheme_def)
  have ca: "cast echo_scheme (\<lambda>_. []) (Some \<lparr>ek_n = 7\<rparr>) [''./temp/identities/3.der'' \<mapsto> SigningKey 3] 5 1 2 demo_args cfg_default
              = Some (?sb, 47474)"
    unfolding cast_def demo_key_path by (simp add: demo_args_def cast_port_def Let_def)
  have run: "cast_run echo_scheme (\<lambda>_. []) (\<lambda>sb. sb) (Some \<lparr>ek_n = 7\<rparr>) [''./temp/identities/3.der'' \<mapsto> SigningKey 3] 5 1 2
               demo_args cfg_default = Some ?acts"
    by (simp add: cast_run_def ca)
  have key: "[''./temp/identities/3.der'' \<mapsto> SigningKey 3] (cast_key_path demo_args cfg_default) \<in> Some ` set [SigningKey 3]"
    by (simp add: demo_key_path)
  have pub: "Publish ''ballot-cast'' ?sb \<in> set ?acts" by (simp add: send_to_swarm_def)
  have dec: "\<forall>sb. Some ((\<lambda>sb. sb) sb) = Some sb" by simp
  have p: "pool_ballot sym_hasher echo_scheme (node_chain ?n) 0 [] (the (Some ?sb)) = Some (?s0\<lparr>ballot_pool := [?sb]\<rparr>, Inr ())"
    by (simp add: pool_ballot_def block_size_def chain_new_def)
  from cast_reaches_node [OF start s run key pub dec p, of "\<lparr>dk_n = 7\<rparr>" "\<lparr>ek_n = 7\<rparr>" "\<lambda>_. (False, 0)"]
  obtain r where "on_gossip_message sym_hasher echo_scheme (\<lambda>_. []) (node_census ?n) \<lparr>dk_n = 7\<rparr> \<lparr>ek_n = 7\<rparr> (\<lambda>_. (False, 0)) 0 []
                    (node_chain ?n) (Some ?sb) = Some (?s0\<lparr>ballot_pool := [?sb]\<rparr>, Resolved r)"
    and "?sb \<in> store_ballots (?s0\<lparr>ballot_pool := [?sb]\<rparr>)"
    by auto
  then show ?thesis using start run pub by blast
qed

end
